theory Spec2Isabelle
  imports Complex_Main
begin

section \<open>The spiral scan loop of \<open>spiralScan\<close>\<close>

text \<open>
  \<open>spiralScan\<close> (src/main.go, lines 99-143) walks an outward square spiral of grid
  offsets with three nested loops:
  \<^verbatim>\<open>
  dirs := []Dir{{1, 0}, {0, 1}, {-1, 0}, {0, -1}}
  x, y, dirIdx, dist := 0, 0, 0, 1
  scanned := 0
  for scanned < config.MaxBlocks && time.Since(startTime) < config.Duration {
      for i := 0; i < 2; i++ {
          for j := 0; j < dist; j++ {
              if scanned >= config.MaxBlocks || time.Since(startTime) >= config.Duration {
                  return
              }
              ... fetch, insert, log ...
              x += dirs[dirIdx].dx
              y += dirs[dirIdx].dy
              scanned++
              time.Sleep(config.Interval)
          }
          dirIdx = (dirIdx + 1) % 4
      }
      dist++
  }
  \<close>
  The loop variables are the record \<open>scan_state\<close> (the fields \<open>cur_x\<close>, \<open>cur_y\<close> and
  \<open>cur_dist\<close> are the source's \<open>x\<close>, \<open>y\<close> and \<open>dist\<close>). Go's \<open>int\<close> is modelled by
  \<open>int\<close>: \<open>scanned\<close> never exceeds \<open>MaxBlocks\<close>, which is itself a Go \<open>int\<close>, and the
  other variables are bounded by \<open>scanned + 1\<close>, so no machine addition wraps; the
  index \<open>dirIdx\<close> is a \<open>nat\<close> and stays below 4 (\<open>ring_loop_in_range\<close>).

  Everything the loop body does to the outside world is a function on a world \<open>'w\<close>,
  collected in \<open>scan_ops\<close>: \<open>expired\<close> is the test
  \<open>time.Since(startTime) >= config.Duration\<close> (reading the clock is an effect),
  \<open>visit\<close> is lines 121-131 (fetch, insert, log) and \<open>pace\<close> is line 135 (the sleep).
  The three loops are the three functions below; the boolean they return says
  whether the \<open>return\<close> of line 119 was taken.
\<close>

record scan_state =
  cur_x :: int
  cur_y :: int
  dirIdx :: nat
  cur_dist :: int
  scanned :: int

record 'w scan_ops =
  expired :: "'w \<Rightarrow> bool \<times> 'w"
  visit :: "scan_state \<Rightarrow> 'w \<Rightarrow> 'w"
  pace :: "'w \<Rightarrow> 'w"

definition dirs :: "(int \<times> int) list" where
  "dirs = [(1, 0), (0, 1), (-1, 0), (0, -1)]"

definition advance :: "scan_state \<Rightarrow> scan_state" where
  "advance s = s\<lparr>cur_x := cur_x s + fst (dirs ! dirIdx s),
                 cur_y := cur_y s + snd (dirs ! dirIdx s),
                 scanned := scanned s + 1\<rparr>"

function leg_loop :: "int \<Rightarrow> 'w scan_ops \<Rightarrow> int \<Rightarrow> scan_state \<times> 'w \<Rightarrow> bool \<times> scan_state \<times> 'w" where
  "leg_loop maxBlocks ops j (s, w) =
     (if j < cur_dist s then
        (if scanned s \<ge> maxBlocks then (True, s, w)
         else (case expired ops w of
                 (True, w') \<Rightarrow> (True, s, w')
               | (False, w') \<Rightarrow> leg_loop maxBlocks ops (j + 1) (advance s, pace ops (visit ops s w'))))
      else (False, s, w))"
  by pat_completeness auto
termination
  by (relation "measure (\<lambda>(m, ops, j, s, w). nat (cur_dist s - j))") (auto simp: advance_def)

function turn_loop :: "int \<Rightarrow> 'w scan_ops \<Rightarrow> nat \<Rightarrow> scan_state \<times> 'w \<Rightarrow> bool \<times> scan_state \<times> 'w" where
  "turn_loop maxBlocks ops i (s, w) =
     (if i < 2 then
        (case leg_loop maxBlocks ops 0 (s, w) of
           (True, s', w') \<Rightarrow> (True, s', w')
         | (False, s', w') \<Rightarrow> turn_loop maxBlocks ops (i + 1) (s'\<lparr>dirIdx := (dirIdx s' + 1) mod 4\<rparr>, w'))
      else (False, s, w))"
  by pat_completeness auto
termination
  by (relation "measure (\<lambda>(m, ops, i, s, w). 2 - i)") auto

lemma leg_loop_keeps:
  "leg_loop m ops j (s, w) = (r, s', w') \<Longrightarrow>
     cur_dist s' = cur_dist s \<and> dirIdx s' = dirIdx s \<and> scanned s \<le> scanned s' \<and>
     (\<not> r \<longrightarrow> j \<le> cur_dist s \<longrightarrow> scanned s' = scanned s + (cur_dist s - j))"
proof (induction m ops j "(s, w)" arbitrary: s w rule: leg_loop.induct)
  case (1 m ops j s w)
  show ?case
  proof (cases "j < cur_dist s \<and> \<not> scanned s \<ge> m \<and> \<not> fst (expired ops w)")
    case True
    then obtain w1 where e: "expired ops w = (False, w1)" by (cases "expired ops w") auto
    from True e "1.prems" have
      rec: "leg_loop m ops (j + 1) (advance s, pace ops (visit ops s w1)) = (r, s', w')"
      by simp
    from True have c1: "j < cur_dist s" and c2: "\<not> m \<le> scanned s" by auto
    from "1.hyps"[OF c1 c2 e[symmetric] refl rec] True
    show ?thesis by (auto simp: advance_def)
  next
    case False
    with "1.prems" show ?thesis by (auto split: if_splits prod.splits bool.splits)
  qed
qed

lemma turn_loop_keeps:
  "turn_loop m ops i (s, w) = (r, s', w') \<Longrightarrow>
     cur_dist s' = cur_dist s \<and> scanned s \<le> scanned s' \<and>
     (\<not> r \<longrightarrow> 0 \<le> cur_dist s \<longrightarrow> scanned s' = scanned s + int (2 - i) * cur_dist s)"
proof (induction m ops i "(s, w)" arbitrary: s w rule: turn_loop.induct)
  case (1 m ops i s w)
  show ?case
  proof (cases "i < 2")
    case True
    obtain r1 s1 w1 where l: "leg_loop m ops 0 (s, w) = (r1, s1, w1)" by (metis prod_cases3)
    note k = leg_loop_keeps[OF l]
    show ?thesis
    proof (cases r1)
      case True
      with l \<open>i < 2\<close> "1.prems" k show ?thesis by auto
    next
      case False
      with l \<open>i < 2\<close> "1.prems" have
        rec: "turn_loop m ops (i + 1) (s1\<lparr>dirIdx := (dirIdx s1 + 1) mod 4\<rparr>, w1) = (r, s', w')" by simp
      from False have r1: "r1 = False" by simp
      from "1.hyps"[OF \<open>i < 2\<close> l[symmetric] r1 refl rec] False k \<open>i < 2\<close>
      show ?thesis by (auto simp: algebra_simps of_nat_diff)
    qed
  next
    case False
    with "1.prems" show ?thesis by auto
  qed
qed

function ring_loop :: "int \<Rightarrow> 'w scan_ops \<Rightarrow> scan_state \<times> 'w \<Rightarrow> bool \<times> scan_state \<times> 'w" where
  "ring_loop maxBlocks ops (s, w) =
     (if scanned s < maxBlocks then
        (case expired ops w of
           (True, w') \<Rightarrow> (False, s, w')
         | (False, w') \<Rightarrow>
             (case turn_loop maxBlocks ops 0 (s, w') of
                (True, s', w'') \<Rightarrow> (True, s', w'')
              | (False, s', w'') \<Rightarrow> ring_loop maxBlocks ops (s'\<lparr>cur_dist := cur_dist s' + 1\<rparr>, w'')))
      else (False, s, w))"
  by pat_completeness auto
termination
proof (relation "measures [\<lambda>(m, ops, s, w). nat (m - scanned s), \<lambda>(m, ops, s, w). nat (1 - cur_dist s)]", goal_cases)
  case 1
  show ?case by simp
next
  case (2 m ops s w x1 w' x2 x3 s' w'')
  from turn_loop_keeps[of m ops 0 s w' False s' w''] 2
  show ?case by (cases "0 \<le> cur_dist s") auto
qed

subsection \<open>Proof rules for the loops\<close>

text \<open>
  \<open>ring_loop_rule\<close> is the invariant rule of the three loops: \<open>P\<close> holds at the head of
  the outer loop, \<open>I i j\<close> at the head of the innermost loop in leg \<open>i\<close> after \<open>j\<close> points
  of that leg, and \<open>Q\<close> when the loops are left (\<open>Q True\<close> by the \<open>return\<close> of line 119).
  \<open>ring_loop_invariant\<close> is its special case for an invariant that does not look at the
  position in the spiral, and \<open>ring_loop_sim\<close> relates two runs of the loops whose clocks
  give the same answers.
\<close>

lemma leg_loop_rule:
  assumes "\<And>j s w. I j s w \<Longrightarrow> j < cur_dist s \<Longrightarrow> m \<le> scanned s \<Longrightarrow> Q True s w"
    and "\<And>j s w w'. I j s w \<Longrightarrow> j < cur_dist s \<Longrightarrow> scanned s < m \<Longrightarrow>
            expired ops w = (True, w') \<Longrightarrow> Q True s w'"
    and "\<And>j s w w'. I j s w \<Longrightarrow> j < cur_dist s \<Longrightarrow> scanned s < m \<Longrightarrow>
            expired ops w = (False, w') \<Longrightarrow> I (j + 1) (advance s) (pace ops (visit ops s w'))"
    and "I j s w" and "leg_loop m ops j (s, w) = (r, s', w')"
  shows "if r then Q True s' w' else (\<exists>j'. \<not> j' < cur_dist s' \<and> I j' s' w')"
  using assms
proof (induction m ops j "(s, w)" arbitrary: s w rule: leg_loop.induct)
  case (1 m ops j s w)
  note ret_count = "1.prems"(1) and ret_time = "1.prems"(2) and step = "1.prems"(3)
    and inv = "1.prems"(4) and run = "1.prems"(5)
  show ?case
  proof (cases "j < cur_dist s")
    case False
    with inv run show ?thesis by auto
  next
    case lt: True
    show ?thesis
    proof (cases "m \<le> scanned s")
      case True
      from ret_count[OF inv lt True] lt True run show ?thesis by auto
    next
      case False
      obtain b w1 where e: "expired ops w = (b, w1)" by (cases "expired ops w") auto
      show ?thesis
      proof (cases b)
        case True
        with e have "expired ops w = (True, w1)" by simp
        from ret_time[OF inv lt _ this] this lt False run show ?thesis by auto
      next
        case nb: False
        with lt False e run have
          rec: "leg_loop m ops (j + 1) (advance s, pace ops (visit ops s w1)) = (r, s', w')"
          by simp
        from nb e have e': "expired ops w = (False, w1)" by simp
        have "I (j + 1) (advance s) (pace ops (visit ops s w1))"
          using step[OF inv lt _ e'] False by simp
        from "1.hyps"[OF lt False e'[symmetric] refl ret_count ret_time step this rec]
        show ?thesis .
      qed
    qed
  qed
qed

lemma turn_loop_rule:
  assumes "\<And>(i::nat) j s w. I i j s w \<Longrightarrow> i < 2 \<Longrightarrow> j < cur_dist s \<Longrightarrow> m \<le> scanned s \<Longrightarrow> Q True s w"
    and "\<And>i j s w w'. I i j s w \<Longrightarrow> i < 2 \<Longrightarrow> j < cur_dist s \<Longrightarrow> scanned s < m \<Longrightarrow>
            expired ops w = (True, w') \<Longrightarrow> Q True s w'"
    and "\<And>i j s w w'. I i j s w \<Longrightarrow> i < 2 \<Longrightarrow> j < cur_dist s \<Longrightarrow> scanned s < m \<Longrightarrow>
            expired ops w = (False, w') \<Longrightarrow> I i (j + 1) (advance s) (pace ops (visit ops s w'))"
    and "\<And>i j s w. I i j s w \<Longrightarrow> \<not> j < cur_dist s \<Longrightarrow> i < 2 \<Longrightarrow>
            I (i + 1) 0 (s\<lparr>dirIdx := (dirIdx s + 1) mod 4\<rparr>) w"
    and "I i 0 s w" and "2 \<le> i \<longrightarrow> i = 2" and "turn_loop m ops i (s, w) = (r, s', w')"
  shows "if r then Q True s' w' else I 2 0 s' w'"
  using assms
proof (induction m ops i "(s, w)" arbitrary: s w rule: turn_loop.induct)
  case (1 m ops i s w)
  note ret_count = "1.prems"(1) and ret_time = "1.prems"(2) and step = "1.prems"(3)
    and turn = "1.prems"(4) and inv = "1.prems"(5) and bound = "1.prems"(6) and run = "1.prems"(7)
  show ?case
  proof (cases "i < 2")
    case False
    with inv bound run show ?thesis by auto
  next
    case lt: True
    obtain r1 s1 w1 where l: "leg_loop m ops 0 (s, w) = (r1, s1, w1)" by (metis prod_cases3)
    have leg: "if r1 then Q True s1 w1 else (\<exists>j'. \<not> j' < cur_dist s1 \<and> I i j' s1 w1)"
    proof (rule leg_loop_rule[where I = "I i" and Q = Q and m = m and ops = ops, OF _ _ _ inv l])
      show "\<And>j s w. I i j s w \<Longrightarrow> j < cur_dist s \<Longrightarrow> m \<le> scanned s \<Longrightarrow> Q True s w"
        using ret_count lt by blast
      show "\<And>j s w w'. I i j s w \<Longrightarrow> j < cur_dist s \<Longrightarrow> scanned s < m \<Longrightarrow>
            expired ops w = (True, w') \<Longrightarrow> Q True s w'"
        using ret_time lt by blast
      show "\<And>j s w w'. I i j s w \<Longrightarrow> j < cur_dist s \<Longrightarrow> scanned s < m \<Longrightarrow>
            expired ops w = (False, w') \<Longrightarrow> I i (j + 1) (advance s) (pace ops (visit ops s w'))"
        using step lt by blast
    qed
    show ?thesis
    proof (cases r1)
      case True
      with leg l lt run show ?thesis by auto
    next
      case False
      with leg obtain j' where j': "\<not> j' < cur_dist s1" "I i j' s1 w1" by auto
      from False have r1: "r1 = False" by simp
      from False l lt run have
        rec: "turn_loop m ops (i + 1) (s1\<lparr>dirIdx := (dirIdx s1 + 1) mod 4\<rparr>, w1) = (r, s', w')"
        by simp
      have b': "2 \<le> i + 1 \<longrightarrow> i + 1 = 2" using lt by auto
      from "1.hyps"[OF lt l[symmetric] r1 refl ret_count ret_time step turn
          turn[OF j'(2) j'(1) lt] b' rec]
      show ?thesis .
    qed
  qed
qed

lemma ring_loop_rule:
  assumes "\<And>(i::nat) j s w. I i j s w \<Longrightarrow> i < 2 \<Longrightarrow> j < cur_dist s \<Longrightarrow> m \<le> scanned s \<Longrightarrow> Q True s w"
    and "\<And>i j s w w'. I i j s w \<Longrightarrow> i < 2 \<Longrightarrow> j < cur_dist s \<Longrightarrow> scanned s < m \<Longrightarrow>
            expired ops w = (True, w') \<Longrightarrow> Q True s w'"
    and "\<And>i j s w w'. I i j s w \<Longrightarrow> i < 2 \<Longrightarrow> j < cur_dist s \<Longrightarrow> scanned s < m \<Longrightarrow>
            expired ops w = (False, w') \<Longrightarrow> I i (j + 1) (advance s) (pace ops (visit ops s w'))"
    and "\<And>i j s w. I i j s w \<Longrightarrow> \<not> j < cur_dist s \<Longrightarrow> i < 2 \<Longrightarrow>
            I (i + 1) 0 (s\<lparr>dirIdx := (dirIdx s + 1) mod 4\<rparr>) w"
    and "\<And>s w. I 2 0 s w \<Longrightarrow> P (s\<lparr>cur_dist := cur_dist s + 1\<rparr>) w"
    and "\<And>s w. P s w \<Longrightarrow> \<not> scanned s < m \<Longrightarrow> Q False s w"
    and "\<And>s w w'. P s w \<Longrightarrow> scanned s < m \<Longrightarrow> expired ops w = (True, w') \<Longrightarrow> Q False s w'"
    and "\<And>s w w'. P s w \<Longrightarrow> scanned s < m \<Longrightarrow> expired ops w = (False, w') \<Longrightarrow> I 0 0 s w'"
    and "P s w" and "ring_loop m ops (s, w) = (r, s', w')"
  shows "Q r s' w'"
  using assms
proof (induction m ops "(s, w)" arbitrary: s w rule: ring_loop.induct)
  case (1 m ops s w)
  note ret_count = "1.prems"(1) and ret_time = "1.prems"(2) and step = "1.prems"(3)
    and turn = "1.prems"(4) and ring = "1.prems"(5) and exit_count = "1.prems"(6)
    and exit_time = "1.prems"(7) and enter = "1.prems"(8) and inv = "1.prems"(9)
    and run = "1.prems"(10)
  show ?case
  proof (cases "scanned s < m")
    case False
    with exit_count[OF inv False] run show ?thesis by auto
  next
    case lt: True
    obtain b w1 where e: "expired ops w = (b, w1)" by (cases "expired ops w") auto
    show ?thesis
    proof (cases b)
      case True
      with e have e': "expired ops w = (True, w1)" by simp
      from exit_time[OF inv lt e'] e' lt run show ?thesis by auto
    next
      case False
      with e have e': "expired ops w = (False, w1)" by simp
      obtain r2 s2 w2 where t: "turn_loop m ops 0 (s, w1) = (r2, s2, w2)" by (metis prod_cases3)
      have b0: "2 \<le> (0::nat) \<longrightarrow> (0::nat) = 2" by simp
      note tr = turn_loop_rule[where I = I and Q = Q and m = m and ops = ops,
          OF ret_count ret_time step turn enter[OF inv lt e'] b0 t]
      show ?thesis
      proof (cases r2)
        case True
        with tr t e' lt run show ?thesis by auto
      next
        case nr: False
        with tr have i2: "I 2 0 s2 w2" by simp
        from nr have r2: "r2 = False" by simp
        from nr t e' lt run have
          rec: "ring_loop m ops (s2\<lparr>cur_dist := cur_dist s2 + 1\<rparr>, w2) = (r, s', w')"
          by simp
        from "1.hyps"[OF lt e'[symmetric] refl t[symmetric] r2 refl ret_count ret_time step turn
            ring exit_count exit_time enter ring[OF i2] rec]
        show ?thesis .
      qed
    qed
  qed
qed

lemma ring_loop_invariant:
  assumes pass: "\<And>s w w'. J s w \<Longrightarrow> scanned s < m \<Longrightarrow> expired ops w = (False, w') \<Longrightarrow> J s w'"
    and step: "\<And>s w w'. J s w \<Longrightarrow> scanned s < m \<Longrightarrow> expired ops w = (False, w') \<Longrightarrow>
                 J (advance s) (pace ops (visit ops s w'))"
    and stop: "\<And>s w w' r. J s w \<Longrightarrow> scanned s < m \<Longrightarrow> expired ops w = (True, w') \<Longrightarrow> Q r s w'"
    and full: "\<And>s w r. J s w \<Longrightarrow> m \<le> scanned s \<Longrightarrow> Q r s w"
    and turn: "\<And>s w d. J s w \<Longrightarrow> J (s\<lparr>dirIdx := d\<rparr>) w"
    and ring: "\<And>s w d. J s w \<Longrightarrow> J (s\<lparr>cur_dist := d\<rparr>) w"
    and init: "J s w" and run: "ring_loop m ops (s, w) = (r, s', w')"
  shows "Q r s' w'"
proof (rule ring_loop_rule[where I = "\<lambda>i j. J" and P = J and Q = Q and m = m and ops = ops,
      OF _ _ _ _ _ _ _ _ init run])
  show "\<And>i j s w. J s w \<Longrightarrow> i < 2 \<Longrightarrow> j < cur_dist s \<Longrightarrow> m \<le> scanned s \<Longrightarrow> Q True s w"
    using full by blast
  show "\<And>i j s w w'. J s w \<Longrightarrow> i < 2 \<Longrightarrow> j < cur_dist s \<Longrightarrow> scanned s < m \<Longrightarrow>
          expired ops w = (True, w') \<Longrightarrow> Q True s w'"
    using stop by blast
  show "\<And>i j s w w'. J s w \<Longrightarrow> i < 2 \<Longrightarrow> j < cur_dist s \<Longrightarrow> scanned s < m \<Longrightarrow>
          expired ops w = (False, w') \<Longrightarrow> J (advance s) (pace ops (visit ops s w'))"
    using step by blast
  show "\<And>i j s w. J s w \<Longrightarrow> \<not> j < cur_dist s \<Longrightarrow> i < 2 \<Longrightarrow>
          J (s\<lparr>dirIdx := (dirIdx s + 1) mod 4\<rparr>) w"
    using turn by blast
  show "\<And>s w. J s w \<Longrightarrow> J (s\<lparr>cur_dist := cur_dist s + 1\<rparr>) w"
    using ring by blast
  show "\<And>s w. J s w \<Longrightarrow> \<not> scanned s < m \<Longrightarrow> Q False s w"
    using full by (simp add: not_less)
  show "\<And>s w w'. J s w \<Longrightarrow> scanned s < m \<Longrightarrow> expired ops w = (True, w') \<Longrightarrow> Q False s w'"
    using stop by blast
  show "\<And>s w w'. J s w \<Longrightarrow> scanned s < m \<Longrightarrow> expired ops w = (False, w') \<Longrightarrow> J s w'"
    using pass by blast
qed

definition same_run :: "('a \<Rightarrow> 'b \<Rightarrow> bool) \<Rightarrow> bool \<times> scan_state \<times> 'a \<Rightarrow> bool \<times> scan_state \<times> 'b \<Rightarrow> bool" where
  "same_run R a b \<longleftrightarrow> fst a = fst b \<and> fst (snd a) = fst (snd b) \<and> R (snd (snd a)) (snd (snd b))"

lemma leg_loop_sim:
  assumes "\<And>w1 w2. R w1 w2 \<Longrightarrow> fst (expired ops1 w1) = fst (expired ops2 w2) \<and>
              R (snd (expired ops1 w1)) (snd (expired ops2 w2))"
    and "\<And>s w1 w2. R w1 w2 \<Longrightarrow> R (pace ops1 (visit ops1 s w1)) (pace ops2 (visit ops2 s w2))"
    and "R w1 w2"
  shows "same_run R (leg_loop m ops1 j (s, w1)) (leg_loop m ops2 j (s, w2))"
  using assms
proof (induction m ops1 j "(s, w1)" arbitrary: s w1 w2 rule: leg_loop.induct)
  case (1 m ops1 j s w1)
  note check = "1.prems"(1) and step = "1.prems"(2) and rel = "1.prems"(3)
  show ?case
  proof (cases "j < cur_dist s \<and> \<not> m \<le> scanned s")
    case False
    with rel show ?thesis by (auto simp: same_run_def)
  next
    case True
    obtain b1 v1 where e1: "expired ops1 w1 = (b1, v1)" by (cases "expired ops1 w1") auto
    obtain b2 v2 where e2: "expired ops2 w2 = (b2, v2)" by (cases "expired ops2 w2") auto
    from check[OF rel] e1 e2 have bb: "b1 = b2" and rv: "R v1 v2" by auto
    show ?thesis
    proof (cases b1)
      case True
      with bb e1 e2 rv \<open>j < cur_dist s \<and> \<not> m \<le> scanned s\<close> show ?thesis
        by (auto simp: same_run_def)
    next
      case False
      with e1 have e1': "expired ops1 w1 = (False, v1)" by simp
      from False bb e2 have e2': "expired ops2 w2 = (False, v2)" by simp
      from True have c1: "j < cur_dist s" and c2: "\<not> m \<le> scanned s" by auto
      have "same_run R (leg_loop m ops1 (j + 1) (advance s, pace ops1 (visit ops1 s v1)))
              (leg_loop m ops2 (j + 1) (advance s, pace ops2 (visit ops2 s v2)))"
        by (rule "1.hyps"[OF c1 c2 e1'[symmetric] refl check step step[OF rv]])
      with c1 c2 e1' e2' show ?thesis by simp
    qed
  qed
qed

lemma turn_loop_sim:
  assumes "\<And>w1 w2. R w1 w2 \<Longrightarrow> fst (expired ops1 w1) = fst (expired ops2 w2) \<and>
              R (snd (expired ops1 w1)) (snd (expired ops2 w2))"
    and "\<And>s w1 w2. R w1 w2 \<Longrightarrow> R (pace ops1 (visit ops1 s w1)) (pace ops2 (visit ops2 s w2))"
    and "R w1 w2"
  shows "same_run R (turn_loop m ops1 i (s, w1)) (turn_loop m ops2 i (s, w2))"
  using assms
proof (induction m ops1 i "(s, w1)" arbitrary: s w1 w2 rule: turn_loop.induct)
  case (1 m ops1 i s w1)
  note check = "1.prems"(1) and step = "1.prems"(2) and rel = "1.prems"(3)
  show ?case
  proof (cases "i < 2")
    case False
    with rel show ?thesis by (auto simp: same_run_def)
  next
    case True
    obtain r1 s1 v1 where l1: "leg_loop m ops1 0 (s, w1) = (r1, s1, v1)" by (metis prod_cases3)
    obtain r2 s2 v2 where l2: "leg_loop m ops2 0 (s, w2) = (r2, s2, v2)" by (metis prod_cases3)
    from leg_loop_sim[where R = R and m = m and j = 0 and s = s, OF check step rel] l1 l2
    have eq: "r1 = r2" "s1 = s2" and rv: "R v1 v2" by (auto simp: same_run_def)
    show ?thesis
    proof (cases r1)
      case True
      with eq rv l1 l2 \<open>i < 2\<close> show ?thesis by (auto simp: same_run_def)
    next
      case False
      then have r1: "r1 = False" by simp
      have "same_run R (turn_loop m ops1 (i + 1) (s1\<lparr>dirIdx := (dirIdx s1 + 1) mod 4\<rparr>, v1))
              (turn_loop m ops2 (i + 1) (s1\<lparr>dirIdx := (dirIdx s1 + 1) mod 4\<rparr>, v2))"
        by (rule "1.hyps"[OF True l1[symmetric] r1 refl check step rv])
      with True l1 l2 eq r1 show ?thesis by simp
    qed
  qed
qed

lemma ring_loop_sim:
  assumes "\<And>w1 w2. R w1 w2 \<Longrightarrow> fst (expired ops1 w1) = fst (expired ops2 w2) \<and>
              R (snd (expired ops1 w1)) (snd (expired ops2 w2))"
    and "\<And>s w1 w2. R w1 w2 \<Longrightarrow> R (pace ops1 (visit ops1 s w1)) (pace ops2 (visit ops2 s w2))"
    and "R w1 w2"
  shows "same_run R (ring_loop m ops1 (s, w1)) (ring_loop m ops2 (s, w2))"
  using assms
proof (induction m ops1 "(s, w1)" arbitrary: s w1 w2 rule: ring_loop.induct)
  case (1 m ops1 s w1)
  note check = "1.prems"(1) and step = "1.prems"(2) and rel = "1.prems"(3)
  show ?case
  proof (cases "scanned s < m")
    case False
    with rel show ?thesis by (auto simp: same_run_def)
  next
    case lt: True
    obtain b1 v1 where e1: "expired ops1 w1 = (b1, v1)" by (cases "expired ops1 w1") auto
    obtain b2 v2 where e2: "expired ops2 w2 = (b2, v2)" by (cases "expired ops2 w2") auto
    from check[OF rel] e1 e2 have bb: "b1 = b2" and rv: "R v1 v2" by auto
    show ?thesis
    proof (cases b1)
      case True
      with bb e1 e2 rv lt show ?thesis by (auto simp: same_run_def)
    next
      case False
      with e1 have e1': "expired ops1 w1 = (False, v1)" by simp
      from False bb e2 have e2': "expired ops2 w2 = (False, v2)" by simp
      obtain r1 s1 u1 where t1: "turn_loop m ops1 0 (s, v1) = (r1, s1, u1)" by (metis prod_cases3)
      obtain r2 s2 u2 where t2: "turn_loop m ops2 0 (s, v2) = (r2, s2, u2)" by (metis prod_cases3)
      from turn_loop_sim[where R = R and m = m and i = 0 and s = s, OF check step rv] t1 t2
      have eq: "r1 = r2" "s1 = s2" and ru: "R u1 u2" by (auto simp: same_run_def)
      show ?thesis
      proof (cases r1)
        case True
        with eq ru t1 t2 lt e1' e2' show ?thesis by (auto simp: same_run_def)
      next
        case nr: False
        then have r1: "r1 = False" by simp
        have "same_run R (ring_loop m ops1 (s1\<lparr>cur_dist := cur_dist s1 + 1\<rparr>, u1))
                (ring_loop m ops2 (s1\<lparr>cur_dist := cur_dist s1 + 1\<rparr>, u2))"
          by (rule "1.hyps"[OF lt e1'[symmetric] refl t1[symmetric] r1 refl check step ru])
        with lt e1' e2' t1 t2 eq r1 show ?thesis by simp
      qed
    qed
  qed
qed

section \<open>The spiral path\<close>

text \<open>
  The loops start from \<open>x, y, dirIdx, dist := 0, 0, 0, 1\<close> and \<open>scanned := 0\<close>
  (\<open>initial_state\<close>, lines 111-112). \<open>spiral_points N\<close> is the list of grid offsets at
  which the loop body runs when the count budget is \<open>N\<close> and the clock never expires:
  the loops themselves, with a body that only records \<open>(x, y)\<close>.
\<close>

definition initial_state :: scan_state where
  "initial_state = \<lparr>cur_x = 0, cur_y = 0, dirIdx = 0, cur_dist = 1, scanned = 0\<rparr>"

definition spiral_ops :: "(int \<times> int) list scan_ops" where
  "spiral_ops = \<lparr>expired = (\<lambda>w. (False, w)),
                  visit = (\<lambda>s w. w @ [(cur_x s, cur_y s)]),
                  pace = (\<lambda>w. w)\<rparr>"

definition spiral_points :: "nat \<Rightarrow> (int \<times> int) list" where
  "spiral_points N = snd (snd (ring_loop (int N) spiral_ops (initial_state, [])))"


text \<open>
  The invariant of the walk. In leg \<open>d\<close> (the direction index) of ring \<open>k\<close>, after \<open>j\<close>
  points of the leg, the walk stands at \<open>spiral_pos d k j\<close> and has visited exactly
  \<open>spiral_seen d k j\<close>: a rectangle and the part of the current leg already walked.
  The leg length \<open>dist\<close> is \<open>2 * k + 1\<close> in the legs 0 and 1 and \<open>2 * k + 2\<close> in the legs
  2 and 3.
\<close>

definition spiral_pos :: "nat \<Rightarrow> int \<Rightarrow> int \<Rightarrow> int \<times> int" where
  "spiral_pos d k j =
     (if d = 0 then (j - k, - k)
      else if d = 1 then (k + 1, j - k)
      else if d = 2 then (k + 1 - j, k + 1)
      else (- k - 1, k + 1 - j))"

definition spiral_seen :: "nat \<Rightarrow> int \<Rightarrow> int \<Rightarrow> (int \<times> int) set" where
  "spiral_seen d k j =
     (if d = 0 then {(a, b). - k \<le> a \<and> a \<le> k \<and> 1 - k \<le> b \<and> b \<le> k} \<union> {(a, b). - k \<le> a \<and> a < j - k \<and> b = - k}
      else if d = 1 then {(a, b). - k \<le> a \<and> a \<le> k \<and> - k \<le> b \<and> b \<le> k} \<union> {(a, b). a = k + 1 \<and> - k \<le> b \<and> b < j - k}
      else if d = 2 then {(a, b). - k \<le> a \<and> a \<le> k + 1 \<and> - k \<le> b \<and> b \<le> k} \<union> {(a, b). b = k + 1 \<and> k + 1 - j < a \<and> a \<le> k + 1}
      else {(a, b). - k \<le> a \<and> a \<le> k + 1 \<and> - k \<le> b \<and> b \<le> k + 1} \<union> {(a, b). a = - k - 1 \<and> k + 1 - j < b \<and> b \<le> k + 1})"

definition spiral_inv :: "int \<Rightarrow> nat \<Rightarrow> int \<Rightarrow> scan_state \<Rightarrow> (int \<times> int) list \<Rightarrow> bool" where
  "spiral_inv N i j s w \<longleftrightarrow>
     dirIdx s < 4 \<and> 1 \<le> cur_dist s \<and> 0 \<le> j \<and> j \<le> cur_dist s \<and>
     distinct w \<and> int (length w) = scanned s \<and> scanned s \<le> N \<and>
     (if i < 2
      then (dirIdx s < 2 \<longleftrightarrow> odd (cur_dist s)) \<and> dirIdx s mod 2 = i \<and>
           (cur_x s, cur_y s) = spiral_pos (dirIdx s) ((cur_dist s - 1) div 2) j \<and>
           set w = spiral_seen (dirIdx s) ((cur_dist s - 1) div 2) j
      else j = 0 \<and> even (dirIdx s) \<and> (dirIdx s < 2 \<longleftrightarrow> even (cur_dist s)) \<and>
           (cur_x s, cur_y s) = spiral_pos (dirIdx s) (cur_dist s div 2) 0 \<and>
           set w = spiral_seen (dirIdx s) (cur_dist s div 2) 0)"

lemma dir_cases: "d < 4 \<Longrightarrow> d = 0 \<or> d = 1 \<or> d = 2 \<or> d = (3::nat)"
  by arith

lemma spiral_pos_fresh:
  "d < 4 \<Longrightarrow> 0 \<le> k \<Longrightarrow> 0 \<le> j \<Longrightarrow> spiral_pos d k j \<notin> spiral_seen d k j"
  by (auto simp: spiral_pos_def spiral_seen_def)

lemma spiral_seen_step:
  "d < 4 \<Longrightarrow> 0 \<le> j \<Longrightarrow> spiral_seen d k (j + 1) = insert (spiral_pos d k j) (spiral_seen d k j)"
  by (auto simp: spiral_pos_def spiral_seen_def)

lemma spiral_pos_step:
  "d < 4 \<Longrightarrow> spiral_pos d k (j + 1) =
     (fst (spiral_pos d k j) + fst (dirs ! d), snd (spiral_pos d k j) + snd (dirs ! d))"
  by (drule dir_cases) (auto simp: spiral_pos_def dirs_def)

lemma spiral_corner_pos:
  "spiral_pos 0 k (2 * k + 1) = spiral_pos 1 k 0"
  "spiral_pos 1 k (2 * k + 1) = spiral_pos 2 k 0"
  "spiral_pos 2 k (2 * k + 2) = spiral_pos 3 k 0"
  "spiral_pos 3 k (2 * k + 2) = spiral_pos 0 (k + 1) 0"
  by (auto simp: spiral_pos_def)

lemma spiral_corner_seen:
  "0 \<le> k \<Longrightarrow> spiral_seen 0 k (2 * k + 1) = spiral_seen 1 k 0"
  "0 \<le> k \<Longrightarrow> spiral_seen 1 k (2 * k + 1) = spiral_seen 2 k 0"
  "0 \<le> k \<Longrightarrow> spiral_seen 2 k (2 * k + 2) = spiral_seen 3 k 0"
  "0 \<le> k \<Longrightarrow> spiral_seen 3 k (2 * k + 2) = spiral_seen 0 (k + 1) 0"
  by (auto simp: spiral_seen_def)

lemma spiral_step:
  assumes "spiral_inv N i j s w" "i < 2" "j < cur_dist s" "scanned s < N"
  shows "spiral_inv N i (j + 1) (advance s) (w @ [(cur_x s, cur_y s)])"
proof -
  let ?d = "dirIdx s" and ?k = "(cur_dist s - 1) div 2"
  from assms have d: "?d < 4" and j: "0 \<le> j" and k: "0 \<le> ?k"
    and pos: "(cur_x s, cur_y s) = spiral_pos ?d ?k j"
    and seen: "set w = spiral_seen ?d ?k j"
    by (auto simp: spiral_inv_def)
  from pos have xy: "cur_x s = fst (spiral_pos ?d ?k j)" "cur_y s = snd (spiral_pos ?d ?k j)"
    by (metis fst_conv, metis snd_conv)
  have fresh: "(cur_x s, cur_y s) \<notin> set w"
    using spiral_pos_fresh[OF d k j] pos seen by simp
  have pos': "(cur_x (advance s), cur_y (advance s)) = spiral_pos ?d ?k (j + 1)"
    unfolding spiral_pos_step[OF d] by (simp add: advance_def xy)
  have seen': "set (w @ [(cur_x s, cur_y s)]) = spiral_seen ?d ?k (j + 1)"
    unfolding spiral_seen_step[OF d j] using pos seen by simp
  from assms fresh pos' seen' show ?thesis
    by (simp add: spiral_inv_def advance_def)
qed

lemma spiral_turn:
  assumes "spiral_inv N i j s w" "\<not> j < cur_dist s" "i < 2"
  shows "spiral_inv N (i + 1) 0 (s\<lparr>dirIdx := (dirIdx s + 1) mod 4\<rparr>) w"
proof -
  let ?d = "dirIdx s" and ?k = "(cur_dist s - 1) div 2"
  from assms have je: "j = cur_dist s" and k: "0 \<le> ?k" and d: "?d < 4"
    by (auto simp: spiral_inv_def)
  from assms have par: "?d < 2 \<longleftrightarrow> odd (cur_dist s)" and di: "?d mod 2 = i"
    by (auto simp: spiral_inv_def)
  from dir_cases[OF d] show ?thesis
  proof (elim disjE)
    assume dv: "?d = 0"
    with di have iv: "i = 0" by simp
    from dv par have c: "cur_dist s = 2 * ?k + 1" by presburger
    from assms(1) have inv: "spiral_inv N 0 (2 * ?k + 1) s w" using iv je c by simp
    have nd: "(dirIdx s + 1) mod 4 = 1" using dv by simp
    from inv spiral_corner_pos(1)[of ?k] spiral_corner_seen(1)[OF k] dv
    show ?thesis unfolding iv nd by (simp add: spiral_inv_def)
  next
    assume dv: "?d = 1"
    with di have iv: "i = 1" by simp
    from dv par have c: "cur_dist s = 2 * ?k + 1" by presburger
    from c have k2: "cur_dist s div 2 = ?k" by presburger
    from assms(1) have inv: "spiral_inv N 1 (2 * ?k + 1) s w" using iv je c by simp
    have nd: "(dirIdx s + 1) mod 4 = 2" using dv by simp
    from inv spiral_corner_pos(2)[of ?k] spiral_corner_seen(2)[OF k] dv k2
    show ?thesis unfolding iv nd by (simp add: spiral_inv_def)
  next
    assume dv: "?d = 2"
    with di have iv: "i = 0" by simp
    from dv par have c: "cur_dist s = 2 * ?k + 2" by presburger
    from assms(1) have inv: "spiral_inv N 0 (2 * ?k + 2) s w" using iv je c by simp
    have nd: "(dirIdx s + 1) mod 4 = 3" using dv by simp
    from inv spiral_corner_pos(3)[of ?k] spiral_corner_seen(3)[OF k] dv
    show ?thesis unfolding iv nd by (simp add: spiral_inv_def)
  next
    assume dv: "?d = 3"
    with di have iv: "i = 1" by simp
    from dv par have c: "cur_dist s = 2 * ?k + 2" by presburger
    from c have k2: "cur_dist s div 2 = ?k + 1" by presburger
    from assms(1) have inv: "spiral_inv N 1 (2 * ?k + 2) s w" using iv je c by simp
    have nd: "(dirIdx s + 1) mod 4 = 0" using dv by simp
    from inv spiral_corner_pos(4)[of ?k] spiral_corner_seen(4)[OF k] dv k2
    show ?thesis unfolding iv nd by (simp add: spiral_inv_def)
  qed
qed

lemma spiral_ring:
  assumes "spiral_inv N 2 0 s w"
  shows "spiral_inv N 0 0 (s\<lparr>cur_dist := cur_dist s + 1\<rparr>) w"
  using assms by (auto simp: spiral_inv_def)

lemma spiral_points_distinct: "distinct (spiral_points N) \<and> length (spiral_points N) = N"
proof -
  obtain r s' w' where run: "ring_loop (int N) spiral_ops (initial_state, []) = (r, s', w')"
    by (metis prod_cases3)
  have init: "spiral_inv (int N) 0 0 initial_state []"
    by (simp add: spiral_inv_def initial_state_def spiral_pos_def spiral_seen_def)
  have "distinct w' \<and> int (length w') = int N"
  proof (rule ring_loop_rule[where I = "spiral_inv (int N)" and P = "spiral_inv (int N) 0 0"
        and Q = "\<lambda>r s w. distinct w \<and> int (length w) = int N"
        and m = "int N" and ops = spiral_ops, OF _ _ _ _ _ _ _ _ init run])
    show "\<And>i j s w. spiral_inv (int N) i j s w \<Longrightarrow> i < 2 \<Longrightarrow> j < cur_dist s \<Longrightarrow>
            int N \<le> scanned s \<Longrightarrow> distinct w \<and> int (length w) = int N"
      by (auto simp: spiral_inv_def)
    show "\<And>i j s w w'. spiral_inv (int N) i j s w \<Longrightarrow> i < 2 \<Longrightarrow> j < cur_dist s \<Longrightarrow>
            scanned s < int N \<Longrightarrow> expired spiral_ops w = (True, w') \<Longrightarrow>
            distinct w' \<and> int (length w') = int N"
      by (simp add: spiral_ops_def)
    show "\<And>i j s w w'. spiral_inv (int N) i j s w \<Longrightarrow> i < 2 \<Longrightarrow> j < cur_dist s \<Longrightarrow>
            scanned s < int N \<Longrightarrow> expired spiral_ops w = (False, w') \<Longrightarrow>
            spiral_inv (int N) i (j + 1) (advance s) (pace spiral_ops (visit spiral_ops s w'))"
      using spiral_step by (auto simp: spiral_ops_def)
    show "\<And>i j s w. spiral_inv (int N) i j s w \<Longrightarrow> \<not> j < cur_dist s \<Longrightarrow> i < 2 \<Longrightarrow>
            spiral_inv (int N) (i + 1) 0 (s\<lparr>dirIdx := (dirIdx s + 1) mod 4\<rparr>) w"
      by (rule spiral_turn)
    show "\<And>s w. spiral_inv (int N) 2 0 s w \<Longrightarrow>
            spiral_inv (int N) 0 0 (s\<lparr>cur_dist := cur_dist s + 1\<rparr>) w"
      by (rule spiral_ring)
    show "\<And>s w. spiral_inv (int N) 0 0 s w \<Longrightarrow> \<not> scanned s < int N \<Longrightarrow>
            distinct w \<and> int (length w) = int N"
      by (auto simp: spiral_inv_def)
    show "\<And>s w w'. spiral_inv (int N) 0 0 s w \<Longrightarrow> scanned s < int N \<Longrightarrow>
            expired spiral_ops w = (True, w') \<Longrightarrow> distinct w' \<and> int (length w') = int N"
      by (simp add: spiral_ops_def)
    show "\<And>s w w'. spiral_inv (int N) 0 0 s w \<Longrightarrow> scanned s < int N \<Longrightarrow>
            expired spiral_ops w = (False, w') \<Longrightarrow> spiral_inv (int N) 0 0 s w'"
      by (simp add: spiral_ops_def)
  qed
  with run show ?thesis by (simp add: spiral_points_def)
qed

subsection \<open>The loop variables stay in range\<close>

text \<open>
  Whatever the body does, \<open>dirIdx\<close> stays below 4, so that \<open>dirs[dirIdx]\<close> never
  panics; \<open>x\<close>, \<open>y\<close> and \<open>dist\<close> are bounded by \<open>scanned + 1\<close>, and \<open>scanned\<close> by
  \<open>MaxBlocks\<close>.
\<close>

definition in_range :: "nat \<Rightarrow> int \<Rightarrow> scan_state \<Rightarrow> bool" where
  "in_range i j s \<longleftrightarrow>
     dirIdx s < 4 \<and> 0 \<le> scanned s \<and> \<bar>cur_x s\<bar> \<le> scanned s \<and> \<bar>cur_y s\<bar> \<le> scanned s \<and>
     1 \<le> cur_dist s \<and> 0 \<le> j \<and> i \<le> 2 \<and> cur_dist s \<le> scanned s + 1 \<and>
     cur_dist s + (int i * cur_dist s + j) \<le> scanned s + 1"

lemma in_range_step: "in_range i j s \<Longrightarrow> in_range i (j + 1) (advance s)"
  by (auto simp: in_range_def advance_def dirs_def dest!: dir_cases)

lemma in_range_turn:
  "in_range i j s \<Longrightarrow> \<not> j < cur_dist s \<Longrightarrow> i < 2 \<Longrightarrow>
   in_range (i + 1) 0 (s\<lparr>dirIdx := (dirIdx s + 1) mod 4\<rparr>)"
  by (auto simp: in_range_def algebra_simps)

lemma in_range_ring: "in_range 2 0 s \<Longrightarrow> in_range 0 0 (s\<lparr>cur_dist := cur_dist s + 1\<rparr>)"
  by (auto simp: in_range_def)

lemma ring_loop_in_range:
  assumes "ring_loop m ops (initial_state, w) = (r, s', w')"
  shows "dirIdx s' < 4 \<and> \<bar>cur_x s'\<bar> \<le> scanned s' \<and> \<bar>cur_y s'\<bar> \<le> scanned s' \<and>
         1 \<le> cur_dist s' \<and> cur_dist s' \<le> scanned s' + 1 \<and> 0 \<le> scanned s' \<and> scanned s' \<le> max 0 m"
proof (rule ring_loop_rule[where I = "\<lambda>i j s w. in_range i j s \<and> scanned s \<le> max 0 m"
      and P = "\<lambda>s w. in_range 0 0 s \<and> scanned s \<le> max 0 m"
      and Q = "\<lambda>r s w. dirIdx s < 4 \<and> \<bar>cur_x s\<bar> \<le> scanned s \<and> \<bar>cur_y s\<bar> \<le> scanned s \<and>
         1 \<le> cur_dist s \<and> cur_dist s \<le> scanned s + 1 \<and> 0 \<le> scanned s \<and> scanned s \<le> max 0 m"
      and m = m and ops = ops, OF _ _ _ _ _ _ _ _ _ assms])
  show "in_range 0 0 initial_state \<and> scanned initial_state \<le> max 0 m"
    by (simp add: in_range_def initial_state_def)
  show "\<And>i j s w w'. in_range i j s \<and> scanned s \<le> max 0 m \<Longrightarrow> i < 2 \<Longrightarrow> j < cur_dist s \<Longrightarrow>
          scanned s < m \<Longrightarrow> expired ops w = (False, w') \<Longrightarrow>
          in_range i (j + 1) (advance s) \<and> scanned (advance s) \<le> max 0 m"
    using in_range_step by (auto simp: advance_def)
  show "\<And>i j s w. in_range i j s \<and> scanned s \<le> max 0 m \<Longrightarrow> \<not> j < cur_dist s \<Longrightarrow> i < 2 \<Longrightarrow>
          in_range (i + 1) 0 (s\<lparr>dirIdx := (dirIdx s + 1) mod 4\<rparr>) \<and>
          scanned (s\<lparr>dirIdx := (dirIdx s + 1) mod 4\<rparr>) \<le> max 0 m"
    using in_range_turn by auto
  show "\<And>s w. in_range 2 0 s \<and> scanned s \<le> max 0 m \<Longrightarrow>
          in_range 0 0 (s\<lparr>cur_dist := cur_dist s + 1\<rparr>) \<and> scanned (s\<lparr>cur_dist := cur_dist s + 1\<rparr>) \<le> max 0 m"
    using in_range_ring by auto
qed (auto simp: in_range_def)

subsection \<open>A larger budget only extends the walk\<close>

text \<open>
  The points visited under a budget of \<open>N\<close> are the first \<open>N\<close> of those visited under
  any larger budget: \<open>spiral_points N\<close> is the list of the first \<open>N\<close> outputs of one
  unbounded walk.
\<close>

definition extends :: "'a list \<Rightarrow> 'a list \<Rightarrow> bool" where
  "extends w w' \<longleftrightarrow> (\<exists>zs. w' = w @ zs)"

lemma extends_refl: "extends w w"
  by (simp add: extends_def)

lemma extends_trans: "extends a b \<Longrightarrow> extends b c \<Longrightarrow> extends a c"
  by (auto simp: extends_def)

lemma extends_take: "extends a b \<Longrightarrow> a = take (length a) b"
  by (auto simp: extends_def)

lemma spiral_expired: "expired spiral_ops w = (b, w') \<Longrightarrow> \<not> b \<and> w' = w"
  by (auto simp: spiral_ops_def)

lemma spiral_step_extends: "extends w0 w \<Longrightarrow> extends w0 (pace spiral_ops (visit spiral_ops s w))"
  by (auto simp: spiral_ops_def extends_def)

lemma leg_loop_extends:
  assumes "leg_loop m spiral_ops j (s, w) = (r, s', w')"
  shows "extends w w'"
proof -
  have "if r then extends w w' else (\<exists>j'. \<not> j' < cur_dist s' \<and> extends w w')"
  proof (rule leg_loop_rule[where I = "\<lambda>j s v. extends w v" and Q = "\<lambda>r s v. extends w v"
        and m = m and ops = spiral_ops, OF _ _ _ _ assms])
    show "extends w w" by (rule extends_refl)
  qed (use spiral_expired spiral_step_extends in blast)+
  then show ?thesis by (simp split: if_splits)
qed

lemma turn_loop_extends:
  assumes "turn_loop m spiral_ops i (s, w) = (r, s', w')" "i \<le> 2"
  shows "extends w w'"
proof -
  have "if r then extends w w' else extends w w'"
  proof (rule turn_loop_rule[where I = "\<lambda>i j s v. extends w v" and Q = "\<lambda>r s v. extends w v"
        and m = m and ops = spiral_ops, OF _ _ _ _ _ _ assms(1)])
    show "extends w w" by (rule extends_refl)
    show "2 \<le> i \<longrightarrow> i = 2" using assms(2) by simp
  qed (use spiral_expired spiral_step_extends in blast)+
  then show ?thesis by (simp split: if_splits)
qed

lemma ring_loop_extends:
  assumes "ring_loop m spiral_ops (s, w) = (r, s', w')"
  shows "extends w w'"
proof (rule ring_loop_invariant[where J = "\<lambda>s v. extends w v" and Q = "\<lambda>r s v. extends w v"
      and m = m and ops = spiral_ops, OF _ _ _ _ _ _ _ assms])
  show "extends w w" by (rule extends_refl)
qed (use spiral_expired spiral_step_extends in blast)+

lemma leg_loop_budget:
  assumes "leg_loop N ops j (s, w) = (r, s', w')" "ops = spiral_ops" "N \<le> M"
  shows "if r then extends w' (snd (snd (leg_loop M ops j (s, w))))
         else leg_loop M ops j (s, w) = (False, s', w')"
  using assms
proof (induction N ops j "(s, w)" arbitrary: s w rule: leg_loop.induct)
  case (1 N ops j s w)
  note run = "1.prems"(1) and ops = "1.prems"(2) and le = "1.prems"(3)
  show ?case
  proof (cases "j < cur_dist s")
    case False
    with run show ?thesis by auto
  next
    case lt: True
    show ?thesis
    proof (cases "N \<le> scanned s")
      case True
      with lt run have r: "r" "s' = s" "w' = w" by auto
      obtain r2 s2 w2 where m: "leg_loop M ops j (s, w) = (r2, s2, w2)" by (metis prod_cases3)
      from leg_loop_extends[OF m[unfolded ops]] r m show ?thesis by simp
    next
      case False
      have e: "expired ops w = (False, w)" by (simp add: ops spiral_ops_def)
      from lt False e run have
        rec: "leg_loop N ops (j + 1) (advance s, pace ops (visit ops s w)) = (r, s', w')"
        by simp
      from False le have nm: "\<not> M \<le> scanned s" by simp
      have unfold: "leg_loop M ops j (s, w) = leg_loop M ops (j + 1) (advance s, pace ops (visit ops s w))"
        using lt nm e by simp
      from "1.hyps"[OF lt False e[symmetric] refl rec ops le] show ?thesis
        unfolding unfold .
    qed
  qed
qed

lemma turn_loop_budget:
  assumes "turn_loop N ops i (s, w) = (r, s', w')" "ops = spiral_ops" "N \<le> M" "i \<le> 2"
  shows "if r then extends w' (snd (snd (turn_loop M ops i (s, w))))
         else turn_loop M ops i (s, w) = (False, s', w')"
  using assms
proof (induction N ops i "(s, w)" arbitrary: s w rule: turn_loop.induct)
  case (1 N ops i s w)
  note run = "1.prems"(1) and ops = "1.prems"(2) and le = "1.prems"(3) and i2 = "1.prems"(4)
  show ?case
  proof (cases "i < 2")
    case False
    with run show ?thesis by auto
  next
    case lt: True
    obtain r1 s1 w1 where l: "leg_loop N ops 0 (s, w) = (r1, s1, w1)" by (metis prod_cases3)
    obtain r2 s2 w2 where lm: "leg_loop M ops 0 (s, w) = (r2, s2, w2)" by (metis prod_cases3)
    obtain r3 s3 w3 where tm: "turn_loop M ops i (s, w) = (r3, s3, w3)" by (metis prod_cases3)
    note lb = leg_loop_budget[OF l ops le]
    show ?thesis
    proof (cases r1)
      case True
      with l lt run have r: "r" "s' = s1" "w' = w1" by auto
      from lb True lm have e12: "extends w1 w2" by simp
      have "extends w2 w3"
      proof (cases r2)
        case True
        with lm lt tm show ?thesis by (simp add: extends_refl)
      next
        case False
        with lm lt tm have
          "turn_loop M ops (i + 1) (s2\<lparr>dirIdx := (dirIdx s2 + 1) mod 4\<rparr>, w2) = (r3, s3, w3)" by simp
        from turn_loop_extends[OF this[unfolded ops]] lt show ?thesis by simp
      qed
      with e12 r tm show ?thesis by (simp add: extends_trans)
    next
      case False
      then have r1: "r1 = False" by simp
      from lb False have lm': "leg_loop M ops 0 (s, w) = (False, s1, w1)" by simp
      from False l lt run have
        rec: "turn_loop N ops (i + 1) (s1\<lparr>dirIdx := (dirIdx s1 + 1) mod 4\<rparr>, w1) = (r, s', w')"
        by simp
      have unfold: "turn_loop M ops i (s, w) =
          turn_loop M ops (i + 1) (s1\<lparr>dirIdx := (dirIdx s1 + 1) mod 4\<rparr>, w1)"
        using lt lm' by simp
      from lt have i3: "i + 1 \<le> 2" by simp
      from "1.hyps"[OF lt l[symmetric] r1 refl rec ops le i3] show ?thesis
        unfolding unfold .
    qed
  qed
qed

lemma ring_loop_budget:
  assumes "ring_loop N ops (s, w) = (r, s', w')" "ops = spiral_ops" "N \<le> M"
  shows "extends w' (snd (snd (ring_loop M ops (s, w))))"
  using assms
proof (induction N ops "(s, w)" arbitrary: s w rule: ring_loop.induct)
  case (1 N ops s w)
  note run = "1.prems"(1) and ops = "1.prems"(2) and le = "1.prems"(3)
  obtain r3 s3 w3 where rm: "ring_loop M ops (s, w) = (r3, s3, w3)" by (metis prod_cases3)
  show ?case
  proof (cases "scanned s < N")
    case False
    with run have "w' = w" by simp
    with ring_loop_extends[OF rm[unfolded ops]] rm show ?thesis by simp
  next
    case lt: True
    with le have ltm: "scanned s < M" by simp
    have e: "expired ops w = (False, w)" by (simp add: ops spiral_ops_def)
    obtain r1 s1 w1 where t: "turn_loop N ops 0 (s, w) = (r1, s1, w1)" by (metis prod_cases3)
    obtain r2 s2 w2 where tm: "turn_loop M ops 0 (s, w) = (r2, s2, w2)" by (metis prod_cases3)
    have z: "(0::nat) \<le> 2" by simp
    note tb = turn_loop_budget[OF t ops le z]
    show ?thesis
    proof (cases r1)
      case True
      with t lt e run have r: "w' = w1" by simp
      from tb True tm have e12: "extends w1 w2" by simp
      have "extends w2 w3"
      proof (cases r2)
        case True
        with tm ltm e rm show ?thesis by (simp add: extends_refl)
      next
        case False
        with tm ltm e rm have
          "ring_loop M ops (s2\<lparr>cur_dist := cur_dist s2 + 1\<rparr>, w2) = (r3, s3, w3)" by simp
        from ring_loop_extends[OF this[unfolded ops]] show ?thesis .
      qed
      with e12 r rm show ?thesis by (simp add: extends_trans)
    next
      case False
      then have r1: "r1 = False" by simp
      from tb False have tm': "turn_loop M ops 0 (s, w) = (False, s1, w1)" by simp
      from False t lt e run have
        rec: "ring_loop N ops (s1\<lparr>cur_dist := cur_dist s1 + 1\<rparr>, w1) = (r, s', w')"
        by simp
      have unfold: "ring_loop M ops (s, w) = ring_loop M ops (s1\<lparr>cur_dist := cur_dist s1 + 1\<rparr>, w1)"
        using ltm e tm' by simp
      from "1.hyps"[OF lt e[symmetric] refl t[symmetric] r1 refl rec ops le] show ?thesis
        unfolding unfold .
    qed
  qed
qed

lemma spiral_points_prefix:
  assumes "N \<le> M"
  shows "spiral_points N = take N (spiral_points M)"
proof -
  obtain r s' w' where run: "ring_loop (int N) spiral_ops (initial_state, []) = (r, s', w')"
    by (metis prod_cases3)
  from assms have "int N \<le> int M" by simp
  from ring_loop_budget[OF run refl this] run
  have "extends (spiral_points N) (spiral_points M)" by (simp add: spiral_points_def)
  from extends_take[OF this] spiral_points_distinct[of N] show ?thesis by simp
qed

lemma spiral_points_first_twelve:
  "map spiral_points [1..<13] =
     map (\<lambda>n. take n [(0, 0), (1, 0), (1, 1), (0, 1), (- 1, 1), (- 1, 0), (- 1, - 1), (0, - 1),
                        (1, - 1), (2, - 1), (2, 0), (2, 1)]) [1..<13]"
  by code_simp

text \<open>
  C1. For every \<open>N\<close>, the loop run with a count budget of \<open>N\<close> points and a clock that
  never expires visits exactly \<open>N\<close> grid offsets, no offset twice, and they are the
  first \<open>N\<close> of the offsets visited under any larger budget; for \<open>N = 1, ..., 12\<close> the
  offsets visited are the first \<open>N\<close> of
  (0,0), (1,0), (1,1), (0,1), (-1,1), (-1,0), (-1,-1), (0,-1), (1,-1), (2,-1), (2,0), (2,1).
\<close>

theorem spiral_first_points:
  "length (spiral_points N) = N \<and> distinct (spiral_points N) \<and>
   spiral_points N = take N (spiral_points (N + K)) \<and>
   map spiral_points [1..<13] =
     map (\<lambda>n. take n [(0, 0), (1, 0), (1, 1), (0, 1), (- 1, 1), (- 1, 0), (- 1, - 1), (0, - 1),
                        (1, - 1), (2, - 1), (2, 0), (2, 1)]) [1..<13]"
  using spiral_points_distinct[of N] spiral_points_prefix[of N "N + K"] spiral_points_first_twelve
  by simp

section \<open>The program\<close>

subsection \<open>Data model\<close>

text \<open>
  The structs of lines 20-53, field by field. Go's \<open>float64\<close> is an abstract type \<open>'f\<close>
  with the operations the program uses on it (\<open>float_ops\<close>): the zero value, the
  constant \<open>0.03\<close> (\<open>f_step\<close>, the \<open>step\<close> of line 101), the conversion \<open>float64(x)\<close>,
  multiplication, addition, and \<open>strconv.ParseFloat(s, 64)\<close> (\<open>None\<close> when it returns an
  error). Nothing is assumed about them. \<open>time.Duration\<close> is an \<open>int\<close> (nanoseconds).
  The anonymous struct of the field \<open>Data\<close> is the record \<open>ApiData\<close>.
\<close>

record 'f Area =
  ID :: int
  AreaName :: string
  Longitude :: 'f
  Latitude :: 'f
  DetailAddress :: string
  TotalDevice :: int
  FreeDevice :: int
  WaitDuration :: int

record 'f ApiData =
  Records :: "'f Area list"

record 'f ApiResponse =
  Code :: int
  Data :: "'f ApiData"

record 'f Center =
  Name :: string
  Lat :: 'f
  Lng :: 'f

record Config =
  Authorization :: string
  Interval :: int
  Duration :: int
  Export :: bool
  MaxBlocks :: int
  OutputDB :: string
  OutputExcel :: string

record 'f float_ops =
  f_zero :: 'f
  f_step :: 'f
  f_of_int :: "int \<Rightarrow> 'f"
  f_mul :: "'f \<Rightarrow> 'f \<Rightarrow> 'f"
  f_add :: "'f \<Rightarrow> 'f \<Rightarrow> 'f"
  f_parse :: "string \<Rightarrow> 'f option"

subsection \<open>JSON decoding of the response envelope\<close>

text \<open>
  \<open>json.NewDecoder(resp.Body).Decode(&result)\<close> (line 91) is Go's \<open>encoding/json\<close>
  applied to the types above. The model starts from the JSON value the decoder's
  scanner reads (\<open>json\<close>; member names and strings are unquoted, a number keeps its
  literal) and follows the library's rules for these types:
  \<^item> a member is matched to a field by its tag, exactly or under Unicode simple case
    folding: for the ASCII tags of this program that is ASCII case-insensitivity, plus
    the long s (bytes C5 BF) for \<open>s\<close> and the Kelvin sign (bytes E2 84 AA) for \<open>k\<close>
    (\<open>fold_key\<close>); members that match no field are skipped; members are processed in
    order, a later one overwriting an earlier one;
  \<^item> \<open>null\<close> leaves an \<open>int\<close>, \<open>string\<close>, \<open>float64\<close> or struct as it is and empties a slice;
  \<^item> an \<open>int\<close> field takes a number whose literal \<open>strconv.ParseInt(s, 10, 64)\<close> accepts;
    a \<open>string\<close> field takes a string; a struct takes an object; a slice takes an array,
    its elements decoded from zero values;
  \<^item> a \<open>float64\<close> field tagged \<open>,string\<close> (\<open>Longitude\<close>, \<open>Latitude\<close>) takes a JSON
    \<^emph>\<open>string\<close> whose content is \<open>null\<close> or starts like a number and is accepted by
    \<open>ParseFloat\<close>; a bare number, boolean, array or object is an error;
  \<^item> any other combination is an error, and one error anywhere makes \<open>Decode\<close> return an
    error. \<open>fetchAreas\<close> looks at the decoded value only when there is no error, so a
    decoder returns \<open>None\<close> for an error and the decoded value otherwise.
\<close>

datatype json =
  JNull
  | JBool bool
  | JNumber string
  | JString string
  | JArray "json list"
  | JObject "(string \<times> json) list"

definition lower_ascii :: "char \<Rightarrow> char" where
  "lower_ascii c =
     (if 65 \<le> (of_char c :: nat) \<and> (of_char c :: nat) \<le> 90 then char_of (of_char c + 32 :: nat) else c)"

fun fold_key :: "string \<Rightarrow> string" where
  "fold_key (a # b # c # cs) =
     (if a = CHR 0xE2 \<and> b = CHR 0x84 \<and> c = CHR 0xAA then CHR ''k'' # fold_key cs
      else if a = CHR 0xC5 \<and> b = CHR 0xBF then CHR ''s'' # fold_key (c # cs)
      else lower_ascii a # fold_key (b # c # cs))"
| "fold_key [a, b] =
     (if a = CHR 0xC5 \<and> b = CHR 0xBF then [CHR ''s''] else lower_ascii a # fold_key [b])"
| "fold_key [a] = [lower_ascii a]"
| "fold_key [] = []"

definition key_is :: "string \<Rightarrow> string \<Rightarrow> bool" where
  "key_is name key \<longleftrightarrow> fold_key key = fold_key name"

definition digit_of :: "char \<Rightarrow> int option" where
  "digit_of c =
     (if 48 \<le> (of_char c :: nat) \<and> (of_char c :: nat) \<le> 57 then Some (int (of_char c) - 48) else None)"

fun parse_digits :: "int \<Rightarrow> string \<Rightarrow> int option" where
  "parse_digits acc [] = Some acc"
| "parse_digits acc (c # cs) =
     (case digit_of c of None \<Rightarrow> None | Some d \<Rightarrow> parse_digits (10 * acc + d) cs)"

definition ParseInt :: "string \<Rightarrow> int option" where
  "ParseInt s =
     (let neg = (take 1 s = ''-'');
          ds = (if take 1 s = ''-'' \<or> take 1 s = ''+'' then drop 1 s else s)
      in if ds = [] then None
         else (case parse_digits 0 ds of
                 None \<Rightarrow> None
               | Some n \<Rightarrow>
                   (let v = (if neg then - n else n)
                    in if - (2 ^ 63) \<le> v \<and> v < 2 ^ 63 then Some v else None)))"

fun decode_int :: "json \<Rightarrow> int \<Rightarrow> int option" where
  "decode_int JNull cur = Some cur"
| "decode_int (JNumber lit) cur = ParseInt lit"
| "decode_int _ cur = None"

fun decode_string :: "json \<Rightarrow> string \<Rightarrow> string option" where
  "decode_string JNull cur = Some cur"
| "decode_string (JString s) cur = Some s"
| "decode_string _ cur = None"

definition starts_number :: "string \<Rightarrow> bool" where
  "starts_number s = (case s of [] \<Rightarrow> False | c # _ \<Rightarrow> c = CHR ''-'' \<or> digit_of c \<noteq> None)"

fun decode_quoted_float :: "'f float_ops \<Rightarrow> json \<Rightarrow> 'f \<Rightarrow> 'f option" where
  "decode_quoted_float fo JNull cur = Some cur"
| "decode_quoted_float fo (JString s) cur =
     (if s = ''null'' then Some cur
      else if starts_number s then f_parse fo s
      else None)"
| "decode_quoted_float fo _ cur = None"

fun decode_members :: "(string \<times> json \<Rightarrow> 'a \<Rightarrow> 'a option) \<Rightarrow> (string \<times> json) list \<Rightarrow> 'a \<Rightarrow> 'a option" where
  "decode_members f [] cur = Some cur"
| "decode_members f (m # ms) cur =
     (case f m cur of None \<Rightarrow> None | Some cur' \<Rightarrow> decode_members f ms cur')"

definition decode_Area_member :: "'f float_ops \<Rightarrow> string \<times> json \<Rightarrow> 'f Area \<Rightarrow> 'f Area option" where
  "decode_Area_member fo m a =
     (let k = fst m; v = snd m in
      if key_is ''id'' k then map_option (\<lambda>n. a\<lparr>ID := n\<rparr>) (decode_int v (ID a))
      else if key_is ''areaName'' k then map_option (\<lambda>t. a\<lparr>AreaName := t\<rparr>) (decode_string v (AreaName a))
      else if key_is ''longitude'' k then map_option (\<lambda>x. a\<lparr>Longitude := x\<rparr>) (decode_quoted_float fo v (Longitude a))
      else if key_is ''latitude'' k then map_option (\<lambda>x. a\<lparr>Latitude := x\<rparr>) (decode_quoted_float fo v (Latitude a))
      else if key_is ''detailAddress'' k then map_option (\<lambda>t. a\<lparr>DetailAddress := t\<rparr>) (decode_string v (DetailAddress a))
      else if key_is ''totalDeviceNum'' k then map_option (\<lambda>n. a\<lparr>TotalDevice := n\<rparr>) (decode_int v (TotalDevice a))
      else if key_is ''freeDeviceNum'' k then map_option (\<lambda>n. a\<lparr>FreeDevice := n\<rparr>) (decode_int v (FreeDevice a))
      else if key_is ''waitDuration'' k then map_option (\<lambda>n. a\<lparr>WaitDuration := n\<rparr>) (decode_int v (WaitDuration a))
      else Some a)"

definition zero_Area :: "'f float_ops \<Rightarrow> 'f Area" where
  "zero_Area fo = \<lparr>ID = 0, AreaName = [], Longitude = f_zero fo, Latitude = f_zero fo,
                    DetailAddress = [], TotalDevice = 0, FreeDevice = 0, WaitDuration = 0\<rparr>"

fun decode_Area :: "'f float_ops \<Rightarrow> json \<Rightarrow> 'f Area \<Rightarrow> 'f Area option" where
  "decode_Area fo JNull cur = Some cur"
| "decode_Area fo (JObject ms) cur = decode_members (decode_Area_member fo) ms cur"
| "decode_Area fo _ cur = None"

fun decode_elements :: "'f float_ops \<Rightarrow> json list \<Rightarrow> 'f Area list option" where
  "decode_elements fo [] = Some []"
| "decode_elements fo (e # es) =
     (case decode_Area fo e (zero_Area fo) of
        None \<Rightarrow> None
      | Some a \<Rightarrow> map_option ((#) a) (decode_elements fo es))"

fun decode_Records :: "'f float_ops \<Rightarrow> json \<Rightarrow> 'f Area list \<Rightarrow> 'f Area list option" where
  "decode_Records fo JNull cur = Some []"
| "decode_Records fo (JArray es) cur = decode_elements fo es"
| "decode_Records fo _ cur = None"

definition decode_Data_member :: "'f float_ops \<Rightarrow> string \<times> json \<Rightarrow> 'f ApiData \<Rightarrow> 'f ApiData option" where
  "decode_Data_member fo m d =
     (if key_is ''records'' (fst m)
      then map_option (\<lambda>rs. d\<lparr>Records := rs\<rparr>) (decode_Records fo (snd m) (Records d))
      else Some d)"

fun decode_Data :: "'f float_ops \<Rightarrow> json \<Rightarrow> 'f ApiData \<Rightarrow> 'f ApiData option" where
  "decode_Data fo JNull cur = Some cur"
| "decode_Data fo (JObject ms) cur = decode_members (decode_Data_member fo) ms cur"
| "decode_Data fo _ cur = None"

definition decode_ApiResponse_member ::
  "'f float_ops \<Rightarrow> string \<times> json \<Rightarrow> 'f ApiResponse \<Rightarrow> 'f ApiResponse option" where
  "decode_ApiResponse_member fo m r =
     (if key_is ''code'' (fst m) then map_option (\<lambda>n. r\<lparr>Code := n\<rparr>) (decode_int (snd m) (Code r))
      else if key_is ''data'' (fst m) then map_option (\<lambda>d. r\<lparr>Data := d\<rparr>) (decode_Data fo (snd m) (Data r))
      else Some r)"

definition zero_ApiResponse :: "'f ApiResponse" where
  "zero_ApiResponse = \<lparr>Code = 0, Data = \<lparr>Records = []\<rparr>\<rparr>"

fun decode_ApiResponse :: "'f float_ops \<Rightarrow> json \<Rightarrow> 'f ApiResponse \<Rightarrow> 'f ApiResponse option" where
  "decode_ApiResponse fo JNull cur = Some cur"
| "decode_ApiResponse fo (JObject ms) cur = decode_members (decode_ApiResponse_member fo) ms cur"
| "decode_ApiResponse fo _ cur = None"

subsection \<open>The API client\<close>

text \<open>
  \<open>fetchAreas\<close> (lines 74-97). \<open>fmt.Sprintf(apiUrl, lng, lat)\<close> is \<open>Sprintf\<close>: the template
  cut at its \<open>%f\<close> verbs, each filled with the next argument (the text of a formatted
  float is not modelled; the argument is kept). The request carries the URL and the
  \<open>Authorization\<close> header; the fixed headers are constants and left out. \<open>client.Do\<close> is a
  parameter: it answers with a transport error (the 8-second timeout included) or a
  response, whose body either cannot be read as one JSON value (\<open>Unreadable\<close>: a syntax
  error, an empty body, a failed read) or is a JSON value. The HTTP status is never looked
  at by the code.
\<close>

datatype 'f piece = Text string | FloatArg 'f | Missing

fun Sprintf :: "string \<Rightarrow> 'f list \<Rightarrow> 'f piece list" where
  "Sprintf [] args = []"
| "Sprintf [c] args = [Text [c]]"
| "Sprintf (c # d # cs) args =
     (if c = CHR ''%'' \<and> d = CHR ''f''
      then (case args of [] \<Rightarrow> Missing # Sprintf cs [] | a # as \<Rightarrow> FloatArg a # Sprintf cs as)
      else (case Sprintf (d # cs) args of
              Text t # ps \<Rightarrow> Text (c # t) # ps
            | ps \<Rightarrow> Text [c] # ps))"

definition apiUrl :: string where
  "apiUrl = ''https://toc.lemobar.com/api-toc/api/area/near?current=1&size=20&longitude=%f&latitude=%f&type=0''"

record 'f request =
  req_url :: "'f piece list"
  req_authorization :: string

datatype body = Unreadable | JsonValue json

datatype http_result = TransportError | Response body

datatype fetch_error = ClientError | ApiError

definition fetchAreas ::
  "'f float_ops \<Rightarrow> ('f request \<Rightarrow> http_result) \<Rightarrow> 'f \<Rightarrow> 'f \<Rightarrow> Config \<Rightarrow> fetch_error + 'f Area list" where
  "fetchAreas fo client_Do lat lng config =
     (let url = Sprintf apiUrl [lng, lat];
          req = \<lparr>req_url = url, req_authorization = Authorization config\<rparr>
      in case client_Do req of
           TransportError \<Rightarrow> Inl ClientError
         | Response Unreadable \<Rightarrow> Inl ApiError
         | Response (JsonValue v) \<Rightarrow>
             (case decode_ApiResponse fo v zero_ApiResponse of
                None \<Rightarrow> Inl ApiError
              | Some result \<Rightarrow>
                  if Code result \<noteq> 200 then Inl ApiError else Inr (Records (Data result))))"

subsection \<open>The store\<close>

text \<open>
  The table \<open>lemobar_areas\<close> (lines 586-595) is a list of rows; \<open>area_id\<close> is its primary
  key. \<open>insert_or_ignore\<close> is the statement prepared at line 102,
  \<open>INSERT OR IGNORE INTO lemobar_areas (...) VALUES (...)\<close>: a row whose key is already
  present is skipped.
\<close>

record 'f row =
  area_id :: int
  area_name :: string
  detail_address :: string
  latitude :: 'f
  longitude :: 'f
  total_device_num :: int
  free_device_num :: int
  wait_duration :: int

definition insert_or_ignore :: "'f row \<Rightarrow> 'f row list \<Rightarrow> 'f row list" where
  "insert_or_ignore r rows =
     (if list_ex (\<lambda>q. area_id q = area_id r) rows then rows else rows @ [r])"

subsection \<open>The scan worker\<close>

text \<open>
  The outside world of a worker is an \<open>env\<close>: the float operations, the clock (\<open>since k\<close>
  is what the \<open>k\<close>-th call of \<open>time.Since(startTime)\<close> returns), the server
  (\<open>client_Do k\<close> answers the \<open>k\<close>-th request), the store's failures (\<open>exec_fails k\<close>:
  the \<open>k\<close>-th \<open>Exec\<close> returns an error and writes nothing) and whether \<open>db.Prepare\<close>
  fails. Nothing is assumed about them: the clock need not be monotone, the server may
  answer differently each time. A \<open>world\<close> is what a worker has done so far: how often
  it read the clock, called the server and the store, the table, and the \<open>trace\<close> of
  its effects in order (\<open>event\<close>). Other workers are not modelled.

  \<open>scan_point\<close> is lines 121-131, \<open>time_Sleep\<close> line 135, \<open>budget_expired\<close> the clock
  test of lines 115 and 118, and \<open>spiralScan\<close> the whole function: the \<open>return\<close> of line
  119 skips the closing log line of line 142, which reads the clock once more.
\<close>

datatype 'f log_line =
  PrepareFailed string
  | PointOk string int 'f 'f nat
  | PointFailed string int 'f 'f fetch_error
  | ScanDone string int int

datatype 'f event =
  Since int
  | Get "'f request"
  | Exec "'f row" bool
  | Log "'f log_line"
  | Sleep int

record 'f env =
  floats :: "'f float_ops"
  since :: "nat \<Rightarrow> int"
  client_Do :: "nat \<Rightarrow> 'f request \<Rightarrow> http_result"
  exec_fails :: "nat \<Rightarrow> bool"
  prepare_fails :: bool

record 'f world =
  clock_reads :: nat
  api_calls :: nat
  exec_calls :: nat
  store :: "'f row list"
  trace :: "'f event list"

definition time_Since :: "'f env \<Rightarrow> 'f world \<Rightarrow> int \<times> 'f world" where
  "time_Since e w =
     (let v = since e (clock_reads w)
      in (v, w\<lparr>clock_reads := clock_reads w + 1, trace := trace w @ [Since v]\<rparr>))"

definition budget_expired :: "'f env \<Rightarrow> Config \<Rightarrow> 'f world \<Rightarrow> bool \<times> 'f world" where
  "budget_expired e config w = (let (v, w') = time_Since e w in (v \<ge> Duration config, w'))"

definition call_fetchAreas ::
  "'f env \<Rightarrow> 'f \<Rightarrow> 'f \<Rightarrow> Config \<Rightarrow> 'f world \<Rightarrow> (fetch_error + 'f Area list) \<times> 'f world" where
  "call_fetchAreas e lat lng config w =
     (fetchAreas (floats e) (client_Do e (api_calls w)) lat lng config,
      w\<lparr>api_calls := api_calls w + 1,
        trace := trace w @ [Get \<lparr>req_url = Sprintf apiUrl [lng, lat],
                                  req_authorization = Authorization config\<rparr>]\<rparr>)"

definition row_of :: "'f Area \<Rightarrow> 'f row" where
  "row_of a = \<lparr>area_id = ID a, area_name = AreaName a, detail_address = DetailAddress a,
                latitude = Latitude a, longitude = Longitude a, total_device_num = TotalDevice a,
                free_device_num = FreeDevice a, wait_duration = WaitDuration a\<rparr>"

definition insertStmt_Exec :: "'f env \<Rightarrow> 'f row \<Rightarrow> 'f world \<Rightarrow> 'f world" where
  "insertStmt_Exec e r w =
     (let failed = exec_fails e (exec_calls w)
      in w\<lparr>exec_calls := exec_calls w + 1,
           store := (if failed then store w else insert_or_ignore r (store w)),
           trace := trace w @ [Exec r failed]\<rparr>)"

definition log_Printf :: "'f log_line \<Rightarrow> 'f world \<Rightarrow> 'f world" where
  "log_Printf l w = w\<lparr>trace := trace w @ [Log l]\<rparr>"

definition time_Sleep :: "int \<Rightarrow> 'f world \<Rightarrow> 'f world" where
  "time_Sleep d w = w\<lparr>trace := trace w @ [Sleep d]\<rparr>"

definition scan_point :: "'f env \<Rightarrow> 'f Center \<Rightarrow> Config \<Rightarrow> scan_state \<Rightarrow> 'f world \<Rightarrow> 'f world" where
  "scan_point e center config s w =
     (let fo = floats e;
          lng = f_add fo (Lng center) (f_mul fo (f_of_int fo (cur_x s)) (f_step fo));
          lat = f_add fo (Lat center) (f_mul fo (f_of_int fo (cur_y s)) (f_step fo));
          (res, w1) = call_fetchAreas e lat lng config w
      in case res of
           Inr areas \<Rightarrow>
             log_Printf (PointOk (Name center) (scanned s) lat lng (length areas))
               (foldl (\<lambda>w' a. insertStmt_Exec e (row_of a) w') w1 areas)
         | Inl err \<Rightarrow> log_Printf (PointFailed (Name center) (scanned s) lat lng err) w1)"

definition worker_ops :: "'f env \<Rightarrow> 'f Center \<Rightarrow> Config \<Rightarrow> 'f world scan_ops" where
  "worker_ops e center config =
     \<lparr>expired = budget_expired e config,
      visit = scan_point e center config,
      pace = time_Sleep (Interval config)\<rparr>"

definition spiralScan :: "'f env \<Rightarrow> 'f Center \<Rightarrow> Config \<Rightarrow> 'f world \<Rightarrow> 'f world" where
  "spiralScan e center config w =
     (if prepare_fails e then log_Printf (PrepareFailed (Name center)) w
      else (case ring_loop (MaxBlocks config) (worker_ops e center config) (initial_state, w) of
              (True, s, w') \<Rightarrow> w'
            | (False, s, w') \<Rightarrow>
                (let (v, w'') = time_Since e w'
                 in log_Printf (ScanDone (Name center) (scanned s) v) w'')))"

text \<open>
  A worker starts in \<open>initial_world rows\<close>, with the table as it finds it. \<open>gets\<close>,
  \<open>sleeps\<close>, \<open>execs\<close> and \<open>logs\<close> pick the requests, sleeps, writes and log lines out of
  a trace; \<open>point_request\<close>, \<open>point_lng\<close> and \<open>point_lat\<close> name the request and the
  coordinates \<open>scan_point\<close> computes at a grid offset.
\<close>

definition initial_world :: "'f row list \<Rightarrow> 'f world" where
  "initial_world rows = \<lparr>clock_reads = 0, api_calls = 0, exec_calls = 0, store = rows, trace = []\<rparr>"

fun gets :: "'f event list \<Rightarrow> 'f request list" where
  "gets [] = []"
| "gets (Get r # es) = r # gets es"
| "gets (_ # es) = gets es"

fun sleeps :: "'f event list \<Rightarrow> int list" where
  "sleeps [] = []"
| "sleeps (Sleep d # es) = d # sleeps es"
| "sleeps (_ # es) = sleeps es"

fun execs :: "'f event list \<Rightarrow> ('f row \<times> bool) list" where
  "execs [] = []"
| "execs (Exec r b # es) = (r, b) # execs es"
| "execs (_ # es) = execs es"

fun logs :: "'f event list \<Rightarrow> 'f log_line list" where
  "logs [] = []"
| "logs (Log l # es) = l # logs es"
| "logs (_ # es) = logs es"

definition point_request :: "'f env \<Rightarrow> 'f Center \<Rightarrow> Config \<Rightarrow> int \<times> int \<Rightarrow> 'f request" where
  "point_request e center config p =
     \<lparr>req_url = Sprintf apiUrl
        [f_add (floats e) (Lng center) (f_mul (floats e) (f_of_int (floats e) (fst p)) (f_step (floats e))),
         f_add (floats e) (Lat center) (f_mul (floats e) (f_of_int (floats e) (snd p)) (f_step (floats e)))],
      req_authorization = Authorization config\<rparr>"

definition point_lng :: "'f env \<Rightarrow> 'f Center \<Rightarrow> scan_state \<Rightarrow> 'f" where
  "point_lng e center s =
     f_add (floats e) (Lng center) (f_mul (floats e) (f_of_int (floats e) (cur_x s)) (f_step (floats e)))"

definition point_lat :: "'f env \<Rightarrow> 'f Center \<Rightarrow> scan_state \<Rightarrow> 'f" where
  "point_lat e center s =
     f_add (floats e) (Lat center) (f_mul (floats e) (f_of_int (floats e) (cur_y s)) (f_step (floats e)))"

subsection \<open>Starting a data collection\<close>

text \<open>
  \<open>startDataCollection\<close> (lines 556-631) up to the final join, as the list of the steps
  it takes. Its inputs are the global configuration, the line \<open>readInput\<close> returns at
  the confirmation prompt and whether \<open>sql.Open\<close> fails. The list of the 24 city
  centres (lines 598-607) is a parameter: no property below depends on its content.
  \<open>strings.ToLower(confirm)\<close> is compared with \<open>y\<close> and \<open>yes\<close> only; the letters that
  lower-case to \<open>y\<close>, \<open>e\<close> or \<open>s\<close> are the ASCII ones, so lower-casing ASCII letters
  decides the comparison. The export dialogue after the join (lines 623-630) is left out.
\<close>

datatype 'f start_step =
  PrintMissingAuthorization
  | ShowCurrentConfig
  | ReadConfirm string
  | PrintCancelled
  | SqlOpen string
  | PrintOpenFailed
  | CreateTable
  | GoSpiralScan "'f Center"
  | WaitAll



fun launched :: "'f start_step list \<Rightarrow> 'f Center list" where
  "launched [] = []"
| "launched (GoSpiralScan c # steps) = c # launched steps"
| "launched (_ # steps) = launched steps"

section \<open>Example inputs\<close>

text \<open>
  Concrete inputs for the instances below: floats read as the reals they denote (\<open>0.03\<close>
  is \<open>3 / 100\<close>; of \<open>ParseFloat\<close> only the integer literals are kept), a centre at the origin, a clock that always shows the same elapsed
  time, a server that always gives the same answer and a store whose writes all succeed
  or all fail.
\<close>

definition ideal_floats :: "real float_ops" where
  "ideal_floats = \<lparr>f_zero = 0, f_step = 3 / 100, f_of_int = of_int, f_mul = (*), f_add = (+),
                   f_parse = (\<lambda>s. map_option of_int (ParseInt s))\<rparr>"

definition example_center :: "real Center" where
  "example_center = \<lparr>Name = ''origin'', Lat = 0, Lng = 0\<rparr>"

definition example_config :: "int \<Rightarrow> Config" where
  "example_config n = \<lparr>Authorization = ''token'', Interval = 3, Duration = 100, Export = False,
                        MaxBlocks = n, OutputDB = ''areas.db'', OutputExcel = ''areas.csv''\<rparr>"

definition example_env :: "int \<Rightarrow> http_result \<Rightarrow> bool \<Rightarrow> real env" where
  "example_env elapsed answer failing =
     \<lparr>floats = ideal_floats, since = (\<lambda>k. elapsed), client_Do = (\<lambda>k req. answer),
      exec_fails = (\<lambda>k. failing), prepare_fails = False\<rparr>"

lemmas example_defs =
  example_env_def example_center_def example_config_def ideal_floats_def initial_world_def
  initial_state_def

lemmas worker_defs =
  spiralScan_def worker_ops_def budget_expired_def time_Since_def scan_point_def
  call_fetchAreas_def log_Printf_def time_Sleep_def insertStmt_Exec_def advance_def dirs_def


definition example_row :: "int \<Rightarrow> string \<Rightarrow> real row" where
  "example_row k n = \<lparr>area_id = k, area_name = n, detail_address = ''street'', latitude = 30,
                       longitude = 114, total_device_num = 4, free_device_num = 2, wait_duration = 0\<rparr>"

definition record_json :: "json \<Rightarrow> json" where
  "record_json lat = JObject [(''id'', JNumber ''1''), (''areaName'', JString ''bar''),
                              (''longitude'', JString ''114''), (''latitude'', lat)]"

definition body_json :: "string \<Rightarrow> json list \<Rightarrow> json" where
  "body_json code rs = JObject [(''code'', JNumber code), (''data'', JObject [(''records'', JArray rs)])]"

definition example_area :: "real Area" where
  "example_area = \<lparr>ID = 1, AreaName = ''bar'', Longitude = 114, Latitude = 30, DetailAddress = [],
                    TotalDevice = 0, FreeDevice = 0, WaitDuration = 0\<rparr>"

lemma example_decodes:
  "decode_ApiResponse ideal_floats (body_json ''200'' [record_json (JString ''30'')]) zero_ApiResponse =
     Some \<lparr>Code = 200, Data = \<lparr>Records = [example_area]\<rparr>\<rparr>"
  "decode_ApiResponse ideal_floats (body_json ''200'' []) zero_ApiResponse =
     Some \<lparr>Code = 200, Data = \<lparr>Records = []\<rparr>\<rparr>"
  "decode_ApiResponse ideal_floats (body_json ''500'' []) zero_ApiResponse =
     Some \<lparr>Code = 500, Data = \<lparr>Records = []\<rparr>\<rparr>"
  "decode_ApiResponse ideal_floats (body_json ''200'' [record_json (JNumber ''30'')]) zero_ApiResponse = None"
  by code_simp+


section \<open>The store: insert or ignore\<close>

text \<open>
  C5. Inserting a row whose \<open>area_id\<close> equals that of a row inserted just before changes
  nothing; and if the table held no row of that id before the first insert, it holds
  exactly one afterwards, with the field values of the first insert.
\<close>

theorem insert_same_id_ignored:
  assumes "area_id r2 = area_id r1"
  shows "insert_or_ignore r2 (insert_or_ignore r1 rows) = insert_or_ignore r1 rows \<and>
         (\<not> list_ex (\<lambda>q. area_id q = area_id r1) rows \<longrightarrow>
            filter (\<lambda>q. area_id q = area_id r1) (insert_or_ignore r2 (insert_or_ignore r1 rows)) = [r1])"
  using assms by (auto simp: insert_or_ignore_def list_ex_iff filter_empty_conv)

theorem insert_same_id_ignored_witness:
  "area_id (example_row 7 ''second'') = area_id (example_row 7 ''first'') \<and>
   \<not> list_ex (\<lambda>q. area_id q = area_id (example_row 7 ''first'')) [example_row 5 ''other''] \<and>
   insert_or_ignore (example_row 7 ''second'') (insert_or_ignore (example_row 7 ''first'') [example_row 5 ''other''])
     = [example_row 5 ''other'', example_row 7 ''first''] \<and>
   filter (\<lambda>q. area_id q = 7)
     (insert_or_ignore (example_row 7 ''second'') (insert_or_ignore (example_row 7 ''first'') [example_row 5 ''other'']))
     = [example_row 7 ''first'']"
  using insert_same_id_ignored[of "example_row 7 ''second''" "example_row 7 ''first''" "[example_row 5 ''other'']"]
  by (simp add: example_row_def insert_or_ignore_def)

section \<open>The API client\<close>

text \<open>
  \<open>top_level_code\<close> reads the \<open>code\<close> member of a body on its own, as the decoder
  would, and \<open>claimed_failure\<close> is the failure condition in the words of the
  specification: the request failed, the body is not JSON, or the code is not 200.
\<close>

definition top_level_code :: "json \<Rightarrow> int option" where
  "top_level_code v =
     (case v of
        JNull \<Rightarrow> Some 0
      | JObject ms \<Rightarrow>
          decode_members (\<lambda>m c. if key_is ''code'' (fst m) then decode_int (snd m) c else Some c) ms 0
      | _ \<Rightarrow> None)"

definition claimed_failure :: "http_result \<Rightarrow> bool" where
  "claimed_failure res =
     (case res of
        TransportError \<Rightarrow> True
      | Response Unreadable \<Rightarrow> True
      | Response (JsonValue v) \<Rightarrow> top_level_code v \<noteq> Some 200)"

lemma decode_members_code:
  "decode_members (decode_ApiResponse_member fo) ms r = Some r' \<Longrightarrow>
   decode_members (\<lambda>m c. if key_is ''code'' (fst m) then decode_int (snd m) c else Some c) ms (Code r) =
     Some (Code r')"
proof (induction ms arbitrary: r)
  case Nil
  then show ?case by simp
next
  case (Cons m ms)
  then obtain r1 where m: "decode_ApiResponse_member fo m r = Some r1"
    and rest: "decode_members (decode_ApiResponse_member fo) ms r1 = Some r'"
    by (auto split: option.splits)
  from m have "(if key_is ''code'' (fst m) then decode_int (snd m) (Code r) else Some (Code r)) = Some (Code r1)"
    by (auto simp: decode_ApiResponse_member_def split: if_splits)
  with Cons.IH[OF rest] show ?case by simp
qed

lemma decode_ApiResponse_code:
  "decode_ApiResponse fo v zero_ApiResponse = Some r \<Longrightarrow> top_level_code v = Some (Code r)"
  using decode_members_code[of fo _ zero_ApiResponse r]
  by (cases v) (auto simp: top_level_code_def zero_ApiResponse_def)

subsection \<open>Bodies with a bare numeric coordinate\<close>

text \<open>
  \<open>body_with_numeric_coordinate\<close> holds of a body in which some element of
  \<open>data.records\<close> has a \<open>latitude\<close> or \<open>longitude\<close> member that is a bare number.
\<close>

lemma key_is_other: "key_is a k \<Longrightarrow> fold_key b \<noteq> fold_key a \<Longrightarrow> \<not> key_is b k"
  by (simp add: key_is_def)

lemma field_names_differ:
  "fold_key ''code'' \<noteq> fold_key ''data''"
  "fold_key ''id'' \<noteq> fold_key ''latitude''"
  "fold_key ''areaName'' \<noteq> fold_key ''latitude''"
  "fold_key ''longitude'' \<noteq> fold_key ''latitude''"
  "fold_key ''id'' \<noteq> fold_key ''longitude''"
  "fold_key ''areaName'' \<noteq> fold_key ''longitude''"
  by code_simp+

fun is_number :: "json \<Rightarrow> bool" where
  "is_number (JNumber lit) = True"
| "is_number _ = False"

definition numeric_coordinate :: "string \<times> json \<Rightarrow> bool" where
  "numeric_coordinate m \<longleftrightarrow> (key_is ''latitude'' (fst m) \<or> key_is ''longitude'' (fst m)) \<and> is_number (snd m)"

fun record_with_numeric_coordinate :: "json \<Rightarrow> bool" where
  "record_with_numeric_coordinate (JObject ms) = list_ex numeric_coordinate ms"
| "record_with_numeric_coordinate _ = False"

fun records_with_numeric_coordinate :: "string \<times> json \<Rightarrow> bool" where
  "records_with_numeric_coordinate (k, JArray es) = (key_is ''records'' k \<and> list_ex record_with_numeric_coordinate es)"
| "records_with_numeric_coordinate _ = False"

fun data_with_numeric_coordinate :: "string \<times> json \<Rightarrow> bool" where
  "data_with_numeric_coordinate (k, JObject ms) = (key_is ''data'' k \<and> list_ex records_with_numeric_coordinate ms)"
| "data_with_numeric_coordinate _ = False"

fun body_with_numeric_coordinate :: "json \<Rightarrow> bool" where
  "body_with_numeric_coordinate (JObject ms) = list_ex data_with_numeric_coordinate ms"
| "body_with_numeric_coordinate _ = False"

lemma decode_members_fails:
  "m \<in> set ms \<Longrightarrow> (\<And>cur. f m cur = None) \<Longrightarrow> decode_members f ms cur = None"
  by (induction ms arbitrary: cur) (auto split: option.splits)

lemma decode_Area_member_numeric:
  assumes "numeric_coordinate m"
  shows "decode_Area_member fo m a = None"
proof -
  from assms obtain lit where v: "snd m = JNumber lit"
    by (cases "snd m") (auto simp: numeric_coordinate_def)
  from assms consider (lat) "key_is ''latitude'' (fst m)" | (lng) "key_is ''longitude'' (fst m)"
    by (auto simp: numeric_coordinate_def)
  then show ?thesis
  proof cases
    case lat
    from key_is_other[OF lat field_names_differ(2)] key_is_other[OF lat field_names_differ(3)]
      key_is_other[OF lat field_names_differ(4)] lat v
    show ?thesis by (simp add: decode_Area_member_def Let_def)
  next
    case lng
    from key_is_other[OF lng field_names_differ(5)] key_is_other[OF lng field_names_differ(6)] lng v
    show ?thesis by (simp add: decode_Area_member_def Let_def)
  qed
qed

lemma decode_Area_numeric:
  "record_with_numeric_coordinate v \<Longrightarrow> decode_Area fo v cur = None"
  by (cases v) (auto simp: list_ex_iff decode_Area_member_numeric intro!: decode_members_fails)

lemma decode_elements_numeric:
  "list_ex record_with_numeric_coordinate es \<Longrightarrow> decode_elements fo es = None"
  by (induction es) (auto simp: decode_Area_numeric split: option.splits)

lemma decode_Data_member_numeric:
  "records_with_numeric_coordinate m \<Longrightarrow> decode_Data_member fo m d = None"
  by (cases m; cases "snd m") (auto simp: decode_Data_member_def decode_elements_numeric)

lemma decode_Data_numeric:
  "list_ex records_with_numeric_coordinate ms \<Longrightarrow> decode_Data fo (JObject ms) cur = None"
  by (auto simp: list_ex_iff decode_Data_member_numeric intro!: decode_members_fails)

lemma decode_ApiResponse_member_numeric:
  assumes "data_with_numeric_coordinate m"
  shows "decode_ApiResponse_member fo m r = None"
proof -
  from assms obtain k ms where m: "m = (k, JObject ms)" and k: "key_is ''data'' k"
    and ms: "list_ex records_with_numeric_coordinate ms"
    by (cases m; cases "snd m") auto
  from key_is_other[OF k field_names_differ(1)] k m decode_Data_numeric[OF ms]
  show ?thesis by (simp add: decode_ApiResponse_member_def)
qed

lemma decode_ApiResponse_numeric:
  "body_with_numeric_coordinate v \<Longrightarrow> decode_ApiResponse fo v cur = None"
  by (cases v) (auto simp: list_ex_iff decode_ApiResponse_member_numeric intro!: decode_members_fails)

lemma example_numeric_body:
  "top_level_code (body_json ''200'' [record_json (JNumber ''30'')]) = Some 200"
  "body_with_numeric_coordinate (body_json ''200'' [record_json (JNumber ''30'')])"
  by code_simp+

text \<open>
  C4, as the code has it. \<open>claimed_failure\<close> collects the three conditions the claim
  names (the request fails, the body is not JSON, the top-level code is not 200). Each
  of them makes \<open>fetchAreas\<close> fail, but so does a JSON body that does not fit the typed
  envelope, whatever its code: \<open>fetchAreas\<close> fails exactly when one of the three
  conditions holds or the body does not decode; otherwise it returns the decoded
  \<open>data.records\<close>, which may be empty.
\<close>

theorem fetchAreas_failure_conditions:
  assumes "client \<lparr>req_url = Sprintf apiUrl [lng, lat], req_authorization = Authorization config\<rparr> = res"
  shows "((\<exists>err. fetchAreas fo client lat lng config = Inl err) \<longleftrightarrow>
            claimed_failure res \<or>
            (\<exists>v. res = Response (JsonValue v) \<and> decode_ApiResponse fo v zero_ApiResponse = None)) \<and>
         (\<forall>v r. res = Response (JsonValue v) \<longrightarrow> decode_ApiResponse fo v zero_ApiResponse = Some r \<longrightarrow>
            Code r = 200 \<longrightarrow> fetchAreas fo client lat lng config = Inr (Records (Data r)))"
proof (cases res)
  case TransportError
  with assms show ?thesis by (simp add: fetchAreas_def claimed_failure_def)
next
  case (Response b)
  show ?thesis
  proof (cases b)
    case Unreadable
    with Response assms show ?thesis by (simp add: fetchAreas_def claimed_failure_def)
  next
    case (JsonValue v)
    show ?thesis
    proof (cases "decode_ApiResponse fo v zero_ApiResponse")
      case None
      with JsonValue Response assms show ?thesis by (simp add: fetchAreas_def)
    next
      case (Some r)
      from decode_ApiResponse_code[OF Some] Some JsonValue Response assms show ?thesis
        by (simp add: fetchAreas_def claimed_failure_def)
    qed
  qed
qed

theorem fetchAreas_failure_conditions_witness:
  "fetchAreas ideal_floats (\<lambda>req. Response (JsonValue (body_json ''200'' []))) 30 114 (example_config 1) = Inr [] \<and>
   fetchAreas ideal_floats (\<lambda>req. Response (JsonValue (body_json ''200'' [record_json (JNumber ''30'')])))
     30 114 (example_config 1) = Inl ApiError"
proof -
  have a: "(\<lambda>req. Response (JsonValue (body_json ''200'' [])))
             \<lparr>req_url = Sprintf apiUrl [114, 30 :: real], req_authorization = Authorization (example_config 1)\<rparr>
           = Response (JsonValue (body_json ''200'' []))" by simp
  have b: "(\<lambda>req. Response (JsonValue (body_json ''200'' [record_json (JNumber ''30'')])))
             \<lparr>req_url = Sprintf apiUrl [114, 30 :: real], req_authorization = Authorization (example_config 1)\<rparr>
           = Response (JsonValue (body_json ''200'' [record_json (JNumber ''30'')]))" by simp
  from fetchAreas_failure_conditions[OF a, of ideal_floats] example_decodes(2)
  have 1: "fetchAreas ideal_floats (\<lambda>req. Response (JsonValue (body_json ''200'' []))) 30 114 (example_config 1) = Inr []"
    by simp
  from fetchAreas_failure_conditions[OF b, of ideal_floats] example_decodes(4)
  have "\<exists>err. fetchAreas ideal_floats (\<lambda>req. Response (JsonValue (body_json ''200'' [record_json (JNumber ''30'')])))
     30 114 (example_config 1) = Inl err"
    by simp
  then have 2: "fetchAreas ideal_floats (\<lambda>req. Response (JsonValue (body_json ''200'' [record_json (JNumber ''30'')])))
     30 114 (example_config 1) = Inl ApiError"
    by (auto simp: fetchAreas_def split: http_result.splits body.splits option.splits if_splits)
  from 1 2 show ?thesis by simp
qed

text \<open>
  C4 as stated fails: a body that is valid JSON with code 200 whose record carries a
  bare numeric latitude makes \<open>fetchAreas\<close> fail although none of the three conditions
  of the claim holds.
\<close>

theorem fetchAreas_numeric_latitude_counterexample:
  "fetchAreas ideal_floats (\<lambda>req. Response (JsonValue (body_json ''200'' [record_json (JNumber ''30'')])))
     30 114 (example_config 1) = Inl ApiError \<and>
   \<not> claimed_failure (Response (JsonValue (body_json ''200'' [record_json (JNumber ''30'')])))"
  by (simp add: fetchAreas_def claimed_failure_def example_decodes example_numeric_body)

section \<open>Properties of the scan worker\<close>

lemma gets_append [simp]: "gets (a @ b) = gets a @ gets b"
  by (induction a rule: gets.induct) auto

lemma sleeps_append [simp]: "sleeps (a @ b) = sleeps a @ sleeps b"
  by (induction a rule: sleeps.induct) auto

lemma execs_append [simp]: "execs (a @ b) = execs a @ execs b"
  by (induction a rule: execs.induct) auto

lemma logs_append [simp]: "logs (a @ b) = logs a @ logs b"
  by (induction a rule: logs.induct) auto

lemma exec_all_trace:
  "gets (trace (foldl (\<lambda>w' a. insertStmt_Exec e (row_of a) w') w areas)) = gets (trace w) \<and>
   sleeps (trace (foldl (\<lambda>w' a. insertStmt_Exec e (row_of a) w') w areas)) = sleeps (trace w) \<and>
   logs (trace (foldl (\<lambda>w' a. insertStmt_Exec e (row_of a) w') w areas)) = logs (trace w) \<and>
   api_calls (foldl (\<lambda>w' a. insertStmt_Exec e (row_of a) w') w areas) = api_calls w \<and>
   clock_reads (foldl (\<lambda>w' a. insertStmt_Exec e (row_of a) w') w areas) = clock_reads w"
  by (induction areas arbitrary: w) (simp_all add: insertStmt_Exec_def Let_def)

lemma scan_point_gets:
  "gets (trace (scan_point e center config s w)) =
     gets (trace w) @ [point_request e center config (cur_x s, cur_y s)]"
  by (simp add: scan_point_def call_fetchAreas_def log_Printf_def point_request_def Let_def
      exec_all_trace split: sum.splits)

lemma time_Sleep_gets: "gets (trace (time_Sleep d w)) = gets (trace w)"
  by (simp add: time_Sleep_def)

lemma budget_expired_gets:
  "budget_expired e config w = (b, w') \<Longrightarrow> gets (trace w') = gets (trace w)"
  by (auto simp: budget_expired_def time_Since_def Let_def)

lemma worker_ops_simps [simp]:
  "expired (worker_ops e center config) = budget_expired e config"
  "visit (worker_ops e center config) = scan_point e center config"
  "pace (worker_ops e center config) = time_Sleep (Interval config)"
  by (simp_all add: worker_ops_def)

lemma ring_loop_gets_bound:
  assumes "ring_loop (MaxBlocks config) (worker_ops e center config) (initial_state, initial_world rows) = (r, s', w')"
  shows "int (length (gets (trace w'))) \<le> max 0 (MaxBlocks config)"
proof (rule ring_loop_invariant[where
      J = "\<lambda>s w. int (length (gets (trace w))) = scanned s \<and> 0 \<le> scanned s \<and> scanned s \<le> max 0 (MaxBlocks config)"
      and Q = "\<lambda>r s w. int (length (gets (trace w))) \<le> max 0 (MaxBlocks config)"
      and m = "MaxBlocks config" and ops = "worker_ops e center config", OF _ _ _ _ _ _ _ assms])
  show "int (length (gets (trace (initial_world rows)))) = scanned initial_state \<and>
        0 \<le> scanned initial_state \<and> scanned initial_state \<le> max 0 (MaxBlocks config)"
    by (simp add: initial_world_def initial_state_def)
qed (auto simp: budget_expired_gets scan_point_gets time_Sleep_gets advance_def)

lemma ring_loop_zero:
  "m \<le> 0 \<Longrightarrow> ring_loop m ops (initial_state, w) = (False, initial_state, w)"
  by (simp add: initial_state_def)

lemma time_Since_gets: "gets (trace (snd (time_Since e w))) = gets (trace w)"
  by (simp add: time_Since_def Let_def)

lemma spiralScan_gets_bound:
  "int (length (gets (trace (spiralScan e center config (initial_world rows))))) \<le> max 0 (MaxBlocks config)"
proof (cases "prepare_fails e")
  case True
  then show ?thesis by (simp add: spiralScan_def log_Printf_def initial_world_def)
next
  case False
  obtain r s' w' where run:
    "ring_loop (MaxBlocks config) (worker_ops e center config) (initial_state, initial_world rows) = (r, s', w')"
    by (metis prod_cases3)
  from ring_loop_gets_bound[OF run] False run show ?thesis
    by (cases r) (simp_all add: spiralScan_def log_Printf_def time_Since_def Let_def)
qed

lemma spiralScan_zero:
  "MaxBlocks config \<le> 0 \<Longrightarrow>
   trace (spiralScan e center config (initial_world rows)) =
     (if prepare_fails e then [Log (PrepareFailed (Name center))]
      else [Since (since e 0), Log (ScanDone (Name center) 0 (since e 0))])"
  by (simp add: spiralScan_def ring_loop_zero log_Printf_def time_Since_def Let_def
      initial_world_def initial_state_def)

text \<open>
  C2. Whatever the clock, the API and the store do, a worker issues at most
  \<open>MaxBlocks\<close> requests (none when \<open>MaxBlocks\<close> is negative); with \<open>MaxBlocks = 0\<close> it
  issues no request, never sleeps and only writes its closing log line (or the line
  about the failed \<open>Prepare\<close>). \<open>spiralScan\<close> is a total function: each of the three
  loops was defined with its termination proof, for every clock and every budget.
\<close>

theorem worker_call_budget:
  "int (length (gets (trace (spiralScan e center config (initial_world rows))))) \<le> max 0 (MaxBlocks config) \<and>
   (MaxBlocks config = 0 \<longrightarrow>
      trace (spiralScan e center config (initial_world rows)) =
        (if prepare_fails e then [Log (PrepareFailed (Name center))]
         else [Since (since e 0), Log (ScanDone (Name center) 0 (since e 0))]))"
  using spiralScan_gets_bound[of e center config rows] spiralScan_zero[of config e center rows]
  by simp

theorem worker_call_budget_witness:
  "MaxBlocks (example_config 0) = 0 \<and>
   trace (spiralScan (example_env 0 TransportError False) example_center (example_config 0) (initial_world [])) =
     [Since 0, Log (ScanDone ''origin'' 0 0)]"
  using worker_call_budget[of "example_env 0 TransportError False" example_center "example_config 0" "[]"]
  by (simp add: example_defs)

subsection \<open>The shape of a worker's trace\<close>
























section \<open>Failed and successful steps\<close>

lemma scan_point_failed:
  assumes "fetchAreas (floats e) (client_Do e (api_calls w)) (point_lat e center s) (point_lng e center s) config = Inl err"
  shows "scan_point e center config s w =
           w\<lparr>api_calls := api_calls w + 1,
             trace := trace w @ [Get (point_request e center config (cur_x s, cur_y s)),
                                 Log (PointFailed (Name center) (scanned s) (point_lat e center s)
                                        (point_lng e center s) err)]\<rparr>"
  using assms
  by (simp add: scan_point_def call_fetchAreas_def log_Printf_def point_request_def point_lat_def
      point_lng_def Let_def)

text \<open>
  C10. If the body of the response has a record whose \<open>latitude\<close> or \<open>longitude\<close> is a
  bare number, decoding fails whatever else the body holds (a code of 200 included),
  \<open>fetchAreas\<close> returns its error, and the step writes nothing to the store and logs the
  point as failed.
\<close>

theorem numeric_coordinate_fails_step:
  assumes "body_with_numeric_coordinate v"
    and "\<And>req. client_Do e (api_calls w) req = Response (JsonValue v)"
  shows "decode_ApiResponse (floats e) v zero_ApiResponse = None \<and>
         fetchAreas (floats e) (client_Do e (api_calls w)) lat lng config = Inl ApiError \<and>
         store (scan_point e center config s w) = store w \<and>
         execs (trace (scan_point e center config s w)) = execs (trace w) \<and>
         logs (trace (scan_point e center config s w)) =
           logs (trace w) @ [PointFailed (Name center) (scanned s) (point_lat e center s) (point_lng e center s) ApiError]"
proof -
  have d: "decode_ApiResponse (floats e) v zero_ApiResponse = None"
    by (rule decode_ApiResponse_numeric[OF assms(1)])
  have f: "fetchAreas (floats e) (client_Do e (api_calls w)) lat lng config = Inl ApiError" for lat lng
    by (simp add: fetchAreas_def assms(2) d)
  from scan_point_failed[OF f] d f show ?thesis by simp
qed

theorem numeric_coordinate_fails_step_witness:
  "body_with_numeric_coordinate (body_json ''200'' [record_json (JNumber ''30'')]) \<and>
   store (scan_point (example_env 0 (Response (JsonValue (body_json ''200'' [record_json (JNumber ''30'')]))) False)
            example_center (example_config 1) initial_state (initial_world [])) = [] \<and>
   logs (trace (scan_point (example_env 0 (Response (JsonValue (body_json ''200'' [record_json (JNumber ''30'')]))) False)
            example_center (example_config 1) initial_state (initial_world []))) =
     [PointFailed ''origin'' 0 0 0 ApiError]"
proof -
  have c: "client_Do (example_env 0 (Response (JsonValue (body_json ''200'' [record_json (JNumber ''30'')]))) False)
             (api_calls (initial_world [])) req =
           Response (JsonValue (body_json ''200'' [record_json (JNumber ''30'')]))" for req
    by (simp add: example_env_def)
  from numeric_coordinate_fails_step[OF example_numeric_body(2) c, where center = example_center
      and config = "example_config 1" and s = initial_state]
  show ?thesis
    by (simp add: example_numeric_body example_defs point_lat_def point_lng_def)
qed

subsection \<open>A server that always fails\<close>











subsection \<open>The requests of a worker follow the spiral\<close>


subsection \<open>Four points at the origin\<close>













subsection \<open>Failed writes\<close>

text \<open>
  \<open>attempted\<close> forgets whether an \<open>Exec\<close> failed; \<open>is_failure_line\<close> holds of the two log
  lines that report a failure (the code has no line for a failed write).
\<close>

fun attempted :: "'f event \<Rightarrow> 'f event" where
  "attempted (Exec r b) = Exec r False"
| "attempted ev = ev"

fun is_failure_line :: "'f log_line \<Rightarrow> bool" where
  "is_failure_line (PrepareFailed c) = True"
| "is_failure_line (PointFailed c k lat lng err) = True"
| "is_failure_line _ = False"

definition same_but_writes :: "'f world \<Rightarrow> 'f world \<Rightarrow> bool" where
  "same_but_writes w1 w2 \<longleftrightarrow>
     clock_reads w1 = clock_reads w2 \<and> api_calls w1 = api_calls w2 \<and>
     map attempted (trace w1) = map attempted (trace w2)"

lemma exec_all_same_but_writes:
  "same_but_writes w1 w2 \<Longrightarrow>
   same_but_writes (foldl (\<lambda>w' a. insertStmt_Exec e1 (row_of a) w') w1 areas)
                   (foldl (\<lambda>w' a. insertStmt_Exec e2 (row_of a) w') w2 areas)"
  by (induction areas arbitrary: w1 w2) (simp_all add: same_but_writes_def insertStmt_Exec_def Let_def)

lemma scan_point_same_but_writes:
  assumes "same_but_writes w1 w2"
  shows "same_but_writes (scan_point (e\<lparr>exec_fails := f\<rparr>) center config s w1) (scan_point e center config s w2)"
proof -
  let ?lng = "f_add (floats e) (Lng center) (f_mul (floats e) (f_of_int (floats e) (cur_x s)) (f_step (floats e)))"
  let ?lat = "f_add (floats e) (Lat center) (f_mul (floats e) (f_of_int (floats e) (cur_y s)) (f_step (floats e)))"
  from assms have api: "api_calls w1 = api_calls w2" by (simp add: same_but_writes_def)
  let ?res = "fetchAreas (floats e) (client_Do e (api_calls w2)) ?lat ?lng config"
  let ?g = "Get \<lparr>req_url = Sprintf apiUrl [?lng, ?lat], req_authorization = Authorization config\<rparr>"
  have got: "same_but_writes (w1\<lparr>api_calls := api_calls w1 + 1, trace := trace w1 @ [?g]\<rparr>)
                             (w2\<lparr>api_calls := api_calls w2 + 1, trace := trace w2 @ [?g]\<rparr>)"
    using assms by (simp add: same_but_writes_def)
  show ?thesis
  proof (cases ?res)
    case (Inl err)
    with got api show ?thesis
      by (simp add: scan_point_def call_fetchAreas_def log_Printf_def Let_def same_but_writes_def)
  next
    case (Inr areas)
    from exec_all_same_but_writes[OF got, where ?e1.0 = "e\<lparr>exec_fails := f\<rparr>" and ?e2.0 = e and areas = areas] Inr api show ?thesis
      by (simp add: scan_point_def call_fetchAreas_def log_Printf_def Let_def same_but_writes_def)
  qed
qed

lemma spiralScan_same_but_writes:
  "map attempted (trace (spiralScan (e\<lparr>exec_fails := f\<rparr>) center config (initial_world rows))) =
   map attempted (trace (spiralScan e center config (initial_world rows)))"
proof (cases "prepare_fails e")
  case True
  then show ?thesis by (simp add: spiralScan_def log_Printf_def)
next
  case False
  have sim: "same_run same_but_writes
      (ring_loop (MaxBlocks config) (worker_ops (e\<lparr>exec_fails := f\<rparr>) center config) (initial_state, initial_world rows))
      (ring_loop (MaxBlocks config) (worker_ops e center config) (initial_state, initial_world rows))"
  proof (rule ring_loop_sim)
    fix w1 w2 :: "'a world"
    assume "same_but_writes w1 w2"
    then show "fst (expired (worker_ops (e\<lparr>exec_fails := f\<rparr>) center config) w1) =
          fst (expired (worker_ops e center config) w2) \<and>
        same_but_writes (snd (expired (worker_ops (e\<lparr>exec_fails := f\<rparr>) center config) w1))
          (snd (expired (worker_ops e center config) w2))"
      by (simp add: budget_expired_def time_Since_def Let_def same_but_writes_def)
  next
    fix s :: scan_state and w1 w2 :: "'a world"
    assume "same_but_writes w1 w2"
    from scan_point_same_but_writes[OF this, where e = e and f = f and center = center and config = config and s = s]
    show "same_but_writes
        (pace (worker_ops (e\<lparr>exec_fails := f\<rparr>) center config)
           (visit (worker_ops (e\<lparr>exec_fails := f\<rparr>) center config) s w1))
        (pace (worker_ops e center config) (visit (worker_ops e center config) s w2))"
      by (simp add: time_Sleep_def same_but_writes_def)
  next
    show "same_but_writes (initial_world rows) (initial_world rows)"
      by (simp add: same_but_writes_def)
  qed
  obtain r1 s1 w1 where run1:
    "ring_loop (MaxBlocks config) (worker_ops (e\<lparr>exec_fails := f\<rparr>) center config) (initial_state, initial_world rows) = (r1, s1, w1)"
    by (metis prod_cases3)
  obtain r2 s2 w2 where run2:
    "ring_loop (MaxBlocks config) (worker_ops e center config) (initial_state, initial_world rows) = (r2, s2, w2)"
    by (metis prod_cases3)
  from sim run1 run2 have eq: "r1 = r2" "s1 = s2" and rel: "same_but_writes w1 w2"
    by (simp_all add: same_run_def)
  from False run1 run2 eq rel show ?thesis
    by (cases r2) (simp_all add: spiralScan_def log_Printf_def time_Since_def Let_def same_but_writes_def)
qed

text \<open>
  C9, as the code has it. The error of \<open>insertStmt.Exec\<close> is discarded (line 126): a
  failed write leaves the store unchanged and adds nothing to the trace but the call
  itself, and a worker whose writes fail behaves exactly like one whose writes succeed
  (same clock reads, requests, write attempts, log lines and sleeps); only the store
  differs.
\<close>

theorem write_failure_discarded:
  "map attempted (trace (spiralScan (e\<lparr>exec_fails := f\<rparr>) center config (initial_world rows))) =
     map attempted (trace (spiralScan e center config (initial_world rows))) \<and>
   (exec_fails e (exec_calls w) \<longrightarrow>
      store (insertStmt_Exec e r w) = store w \<and>
      trace (insertStmt_Exec e r w) = trace w @ [Exec r True])"
  using spiralScan_same_but_writes[where e = e and f = f and center = center and config = config and rows = rows]
  by (simp add: insertStmt_Exec_def Let_def)

lemma example_fetch_one:
  "fetchAreas ideal_floats (\<lambda>req. Response (JsonValue (body_json ''200'' [record_json (JString ''30'')])))
     lat lng config = Inr [example_area]"
  by (simp add: fetchAreas_def example_decodes)

lemma example_failed_write_run:
  "trace (spiralScan (example_env 0 (Response (JsonValue (body_json ''200'' [record_json (JString ''30'')]))) True)
      example_center (example_config 1) (initial_world [])) =
     [Since 0, Since 0,
      Get \<lparr>req_url = Sprintf apiUrl [0, 0], req_authorization = ''token''\<rparr>,
      Exec (row_of example_area) True,
      Log (PointOk ''origin'' 0 0 0 1), Sleep 3] \<and>
   store (spiralScan (example_env 0 (Response (JsonValue (body_json ''200'' [record_json (JString ''30'')]))) True)
      example_center (example_config 1) (initial_world [])) = []"
  by (simp add: worker_defs example_defs example_fetch_one[unfolded ideal_floats_def] Let_def)

text \<open>
  C9 as stated fails: in this run the only write fails, the record is lost, and the log
  holds a single line, which reports the point as a success with one record.
\<close>

theorem failed_write_not_logged_counterexample:
  "execs (trace (spiralScan (example_env 0 (Response (JsonValue (body_json ''200'' [record_json (JString ''30'')]))) True)
      example_center (example_config 1) (initial_world []))) = [(row_of example_area, True)] \<and>
   store (spiralScan (example_env 0 (Response (JsonValue (body_json ''200'' [record_json (JString ''30'')]))) True)
      example_center (example_config 1) (initial_world [])) = [] \<and>
   logs (trace (spiralScan (example_env 0 (Response (JsonValue (body_json ''200'' [record_json (JString ''30'')]))) True)
      example_center (example_config 1) (initial_world []))) = [PointOk ''origin'' 0 0 0 1] \<and>
   filter is_failure_line (logs (trace (spiralScan
      (example_env 0 (Response (JsonValue (body_json ''200'' [record_json (JString ''30'')]))) True)
      example_center (example_config 1) (initial_world [])))) = []"
  by (simp add: example_failed_write_run)

theorem write_failure_discarded_witness:
  "exec_fails (example_env 0 TransportError True) (exec_calls (initial_world [])) \<and>
   store (insertStmt_Exec (example_env 0 TransportError True) (example_row 7 ''lost'') (initial_world [])) = [] \<and>
   trace (insertStmt_Exec (example_env 0 TransportError True) (example_row 7 ''lost'') (initial_world [])) =
     [Exec (example_row 7 ''lost'') True]"
  using write_failure_discarded[where e = "example_env 0 TransportError True" and w = "initial_world []"
      and r = "example_row 7 ''lost''" and f = "\<lambda>k. False" and center = example_center
      and config = "example_config 1" and rows = "[]"]
  by (simp add: example_env_def initial_world_def)

section \<open>Starting a scan\<close>

lemma launched_append [simp]: "launched (a @ b) = launched a @ launched b"
  by (induction a rule: launched.induct) auto

lemma launched_map [simp]: "launched (map GoSpiralScan cs) = cs"
  by (induction cs) auto

lemma CreateTable_not_go [simp]: "CreateTable \<notin> set (map GoSpiralScan cs)"
  by (induction cs) auto





end
